theory Spec2Isabelle
  imports Main "HOL-Library.Sublist"
begin

unbundle bit_operations_syntax

section \<open>Text\<close>

text \<open>
  A Python \<open>str\<close> is modelled as a \<open>string\<close>; a \<open>char\<close> stands for the code point of
  the same number, so the model covers text whose code points are below 256. On that
  range \<open>str.lower\<close> maps \<open>A\<close>..\<open>Z\<close> and the capital letters \<open>0xC0\<close>..\<open>0xDE\<close>
  (without the multiplication sign \<open>0xD7\<close>) to the letter 32 places further, and the
  class \<open>\s\<close> of a \<open>str\<close> pattern holds the code points 9..13, 28..32, \<open>0x85\<close> and
  \<open>0xA0\<close>.
\<close>

definition lower_char :: "char \<Rightarrow> char" where
  "lower_char c =
     (let n = (of_char c :: nat)
      in if (65 \<le> n \<and> n \<le> 90) \<or> (192 \<le> n \<and> n \<le> 222 \<and> n \<noteq> 215)
         then char_of (n + 32) else c)"

definition lower :: "string \<Rightarrow> string" where
  "lower s = map lower_char s"

definition is_space :: "char \<Rightarrow> bool" where
  "is_space c =
     (let n = (of_char c :: nat)
      in (9 \<le> n \<and> n \<le> 13) \<or> (28 \<le> n \<and> n \<le> 32) \<or> n = 133 \<or> n = 160)"

text \<open>\<open>a in b\<close> on two strings: \<open>a\<close> occurs in \<open>b\<close> as a contiguous piece.\<close>

fun starts_with :: "string \<Rightarrow> string \<Rightarrow> bool" where
  "starts_with [] s = True"
| "starts_with (p # ps) [] = False"
| "starts_with (p # ps) (c # cs) = (p = c \<and> starts_with ps cs)"

fun py_in :: "string \<Rightarrow> string \<Rightarrow> bool" where
  "py_in a [] = (a = [])"
| "py_in a (c # cs) = (starts_with a (c # cs) \<or> py_in a cs)"

text \<open>
  \<open>s.split(d)\<close> for a separator of one character: every occurrence of \<open>d\<close> ends a
  piece, and empty pieces are kept.
\<close>

fun split_on :: "char \<Rightarrow> string \<Rightarrow> string list" where
  "split_on d [] = [[]]"
| "split_on d (c # cs) =
     (if c = d then [] # split_on d cs
      else (case split_on d cs of
              [] \<Rightarrow> [[c]]
            | piece # pieces \<Rightarrow> (c # piece) # pieces))"

section \<open>Errors and conversions\<close>

datatype error = ValueError | InvalidSecret | InvalidDigits

text \<open>
  \<open>int(v)\<close> on a string, base 10: an optional sign, then decimal digits, where a single
  underscore may stand between two digits. Everything else raises \<open>ValueError\<close>.
  \<open>int\<close> would also strip white space at both ends; the values converted here are
  pieces of the second group of the pattern, which holds no white space. The
  interpreter's configurable bound on the number of digits of such a conversion is
  left out.
\<close>

definition digit_val :: "char \<Rightarrow> nat option" where
  "digit_val c =
     (let n = (of_char c :: nat) in if 48 \<le> n \<and> n \<le> 57 then Some (n - 48) else None)"

fun int_digits :: "nat \<Rightarrow> string \<Rightarrow> nat option" where
  "int_digits acc [] = Some acc"
| "int_digits acc [c] =
     (case digit_val c of None \<Rightarrow> None | Some v \<Rightarrow> Some (10 * acc + v))"
| "int_digits acc (c # d # ds) =
     (if c = CHR ''_''
      then (case digit_val d of None \<Rightarrow> None | Some v \<Rightarrow> int_digits (10 * acc + v) ds)
      else (case digit_val c of None \<Rightarrow> None | Some v \<Rightarrow> int_digits (10 * acc + v) (d # ds)))"

definition int_unsigned :: "string \<Rightarrow> nat option" where
  "int_unsigned s =
     (case s of
        [] \<Rightarrow> None
      | c # cs \<Rightarrow> (case digit_val c of None \<Rightarrow> None | Some v \<Rightarrow> int_digits v cs))"

definition py_int :: "string \<Rightarrow> error + int" where
  "py_int s =
     (case s of
        [] \<Rightarrow> Inl ValueError
      | c # cs \<Rightarrow>
          if c = CHR ''-''
          then (case int_unsigned cs of None \<Rightarrow> Inl ValueError | Some n \<Rightarrow> Inr (- int n))
          else if c = CHR ''+''
          then (case int_unsigned cs of None \<Rightarrow> Inl ValueError | Some n \<Rightarrow> Inr (int n))
          else (case int_unsigned s of None \<Rightarrow> Inl ValueError | Some n \<Rightarrow> Inr (int n)))"

section \<open>The record extractor\<close>

record descriptor =
  label :: string
  secret :: string
  digits :: int

definition marker :: string where
  "marker = ''otpauth://totp/''"

text \<open>
  A literal of the pattern under \<open>re.IGNORECASE\<close>: a character of the line matches a
  (lower case) character of the literal when its lower case form is that character.
  The result is the text after the literal.
\<close>

fun match_literal :: "string \<Rightarrow> string \<Rightarrow> string option" where
  "match_literal [] s = Some s"
| "match_literal (p # ps) [] = None"
| "match_literal (p # ps) (c # cs) =
     (if lower_char c = p then match_literal ps cs else None)"

text \<open>
  The pattern \<open>otpauth://totp/([^?]+)\?([^\s]+)\<close> tried at the start of \<open>s\<close>. The
  first group is greedy and so takes every character up to the next \<open>?\<close>; giving some
  of them back never helps, since the character after a shorter group is not \<open>?\<close>.
  The second group takes every character up to the next white space.
\<close>

definition match_at :: "string \<Rightarrow> (string \<times> string) option" where
  "match_at s =
     (case match_literal marker s of
        None \<Rightarrow> None
      | Some r \<Rightarrow>
          (let group1 = takeWhile (\<lambda>c. c \<noteq> CHR ''?'') r;
               r' = dropWhile (\<lambda>c. c \<noteq> CHR ''?'') r
           in if group1 = [] then None
              else (case r' of
                      [] \<Rightarrow> None
                    | q # r'' \<Rightarrow>
                        (let group2 = takeWhile (\<lambda>c. \<not> is_space c) r''
                         in if group2 = [] then None else Some (group1, group2)))))"

text \<open>\<open>re.search\<close>: the match at the leftmost position of the line that has one.\<close>

fun re_search :: "string \<Rightarrow> (string \<times> string) option" where
  "re_search [] = match_at []"
| "re_search (c # cs) =
     (case match_at (c # cs) of Some m \<Rightarrow> Some m | None \<Rightarrow> re_search cs)"

text \<open>
  \<open>kv.split("=", 1)\<close> under the guard \<open>"=" in kv\<close>: the text before the first \<open>=\<close> and
  the text after it.
\<close>

definition split_once :: "string \<Rightarrow> (string \<times> string) option" where
  "split_once kv =
     (if CHR ''='' \<in> set kv
      then Some (takeWhile (\<lambda>c. c \<noteq> CHR ''='') kv, tl (dropWhile (\<lambda>c. c \<noteq> CHR ''='') kv))
      else None)"

text \<open>The loop over \<open>query.split("&")\<close> that fills the dictionary \<open>params\<close>.\<close>

definition add_param :: "(string \<rightharpoonup> string) \<Rightarrow> string \<Rightarrow> (string \<rightharpoonup> string)" where
  "add_param params kv =
     (case split_once kv of
        None \<Rightarrow> params
      | Some (k, v) \<Rightarrow> params(lower k \<mapsto> v))"

definition parse_params :: "string \<Rightarrow> (string \<rightharpoonup> string)" where
  "parse_params query = foldl add_param Map.empty (split_on CHR ''&'' query)"

definition parse_first_match :: "string \<Rightarrow> string \<Rightarrow> error + descriptor option" where
  "parse_first_match line needle =
     (case re_search line of
        None \<Rightarrow> Inr None
      | Some (lab, query) \<Rightarrow>
          if \<not> py_in (lower needle) (lower lab) then Inr None
          else
            (let params = parse_params query
             in case params ''secret'' of
                  None \<Rightarrow> Inr None
                | Some sec \<Rightarrow>
                    if sec = [] then Inr None
                    else
                      (case (case params ''digits'' of
                               None \<Rightarrow> Inr 6
                             | Some v \<Rightarrow> py_int v) of
                         Inl e \<Rightarrow> Inl e
                       | Inr n \<Rightarrow> Inr (Some \<lparr>label = lab, secret = sec, digits = n\<rparr>))))"

text \<open>
  The three tests a line has to pass before its \<open>digits\<close> value is looked at: the
  pattern is found, the label holds the needle, and \<open>params.get("secret")\<close> is a
  non-empty string.
\<close>

definition passes_filters :: "string \<Rightarrow> string \<Rightarrow> bool" where
  "passes_filters line needle =
     (case re_search line of
        None \<Rightarrow> False
      | Some (lab, query) \<Rightarrow>
          py_in (lower needle) (lower lab) \<and>
          (case parse_params query ''secret'' of None \<Rightarrow> False | Some sec \<Rightarrow> sec \<noteq> []))"

text \<open>
  The parts of a match, as the pattern describes them: \<open>m\<close> is the marker in any case,
  \<open>lab\<close> is a non-empty text without \<open>?\<close>, and \<open>q\<close> is a non-empty text without white
  space.
\<close>

definition well_formed :: "string \<Rightarrow> string \<Rightarrow> string \<Rightarrow> bool" where
  "well_formed m lab q \<longleftrightarrow>
     lower m = marker \<and> lab \<noteq> [] \<and> CHR ''?'' \<notin> set lab \<and> q \<noteq> [] \<and>
     list_all (\<lambda>c. \<not> is_space c) q"

section \<open>The pipeline\<close>

text \<open>
  \<open>search_and_generate_oauth\<close> reads the file line by line. What it does beyond
  returning a boolean is kept in the result: what it printed (\<open>Box b\<close> for
  \<open>print_colored_box(b)\<close>, \<open>Line s\<close> for \<open>print(s)\<close>), the lines it has not read, and
  the calls it made to the generator. The generator \<open>pyotp.TOTP(secret,
  digits=digits).now()\<close> and \<open>copy_to_clipboard\<close> depend on the library, the clock and
  the operating system; they are the parameters \<open>totp\<close> and \<open>clip\<close>. An exception
  leaves the function as \<open>Inl\<close>.
\<close>

datatype console = Box bool | Line string

record outcome =
  found :: bool
  printed :: "console list"
  unread :: "string list"
  generated :: "(string \<times> int) list"

fun search_and_generate_oauth ::
  "(string \<Rightarrow> int \<Rightarrow> error + string) \<Rightarrow> (string \<Rightarrow> bool) \<Rightarrow> string list \<Rightarrow> string
     \<Rightarrow> error + outcome" where
  "search_and_generate_oauth totp clip [] search_text =
     Inr \<lparr>found = False, printed = [Box False], unread = [], generated = []\<rparr>"
| "search_and_generate_oauth totp clip (raw # rest) search_text =
     (case parse_first_match raw search_text of
        Inl e \<Rightarrow> Inl e
      | Inr None \<Rightarrow> search_and_generate_oauth totp clip rest search_text
      | Inr (Some data) \<Rightarrow>
          (case totp (secret data) (digits data) of
             Inl e \<Rightarrow> Inl e
           | Inr code \<Rightarrow>
               (let copied = clip code
                in Inr \<lparr>found = True,
                        printed = Box copied # (if copied then [] else [Line code]),
                        unread = rest,
                        generated = [(secret data, digits data)]\<rparr>)))"

section \<open>The generator\<close>

text \<open>
  Modelled from the spec: the generator and the functions it is made of. The script
  obtains its codes from the \<open>pyotp\<close> library, which is not among the sources; this
  section follows section 4.2 of the specification, with SHA-1 and HMAC as FIPS 180 and
  RFC 2104 define them. Bytes and 32-bit words are integers, with the wrap-around of
  the 32-bit operations written out.
\<close>

definition add32 :: "int \<Rightarrow> int \<Rightarrow> int" where
  "add32 x y = (x + y) mod 4294967296"

definition rotl1 :: "int \<Rightarrow> int" where
  "rotl1 x = (x * 2) mod 4294967296 + x div 2147483648"

definition rotl5 :: "int \<Rightarrow> int" where
  "rotl5 x = (x * 32) mod 4294967296 + x div 134217728"

definition rotl30 :: "int \<Rightarrow> int" where
  "rotl30 x = (x * 1073741824) mod 4294967296 + x div 4"

text \<open>The \<open>k\<close> low bytes of \<open>n\<close>, most significant first.\<close>

primrec be_bytes :: "nat \<Rightarrow> int \<Rightarrow> int list" where
  "be_bytes 0 n = []"
| "be_bytes (Suc k) n = be_bytes k (n div 256) @ [n mod 256]"

definition sha1_pad :: "int list \<Rightarrow> int list" where
  "sha1_pad m =
     m @ [128] @ replicate ((119 - length m mod 64) mod 64) 0 @ be_bytes 8 (8 * int (length m))"

fun be_words :: "int list \<Rightarrow> int list" where
  "be_words (a # b # c # d # r) = (((a * 256 + b) * 256 + c) * 256 + d) # be_words r"
| "be_words r = []"

text \<open>The message schedule, newest word first.\<close>

primrec schedule :: "nat \<Rightarrow> int list \<Rightarrow> int list" where
  "schedule 0 ws = ws"
| "schedule (Suc n) ws =
     schedule n (rotl1 (ws ! 2 XOR ws ! 7 XOR ws ! 13 XOR ws ! 15) # ws)"

type_synonym sha1_state = "int \<times> int \<times> int \<times> int \<times> int"

definition f_ch :: "int \<Rightarrow> int \<Rightarrow> int \<Rightarrow> int" where
  "f_ch b c d = (b AND c) OR ((b XOR 4294967295) AND d)"

definition f_parity :: "int \<Rightarrow> int \<Rightarrow> int \<Rightarrow> int" where
  "f_parity b c d = b XOR c XOR d"

definition f_maj :: "int \<Rightarrow> int \<Rightarrow> int \<Rightarrow> int" where
  "f_maj b c d = (b AND c) OR (b AND d) OR (c AND d)"

fun sha1_rounds ::
  "(int \<Rightarrow> int \<Rightarrow> int \<Rightarrow> int) \<Rightarrow> int \<Rightarrow> int list \<Rightarrow> sha1_state \<Rightarrow> sha1_state" where
  "sha1_rounds f k [] s = s"
| "sha1_rounds f k (w # ws) (a, b, c, d, e) =
     sha1_rounds f k ws
       (add32 (add32 (add32 (add32 (rotl5 a) (f b c d)) e) k) w, a, rotl30 b, c, d)"

fun sha1_block :: "sha1_state \<Rightarrow> int list \<Rightarrow> sha1_state" where
  "sha1_block (h0, h1, h2, h3, h4) block =
     (let w = rev (schedule 64 (rev (be_words block)));
          s1 = sha1_rounds f_ch 1518500249 (take 20 w) (h0, h1, h2, h3, h4);
          s2 = sha1_rounds f_parity 1859775393 (take 20 (drop 20 w)) s1;
          s3 = sha1_rounds f_maj 2400959708 (take 20 (drop 40 w)) s2
      in case sha1_rounds f_parity 3395469782 (drop 60 w) s3 of
           (a, b, c, d, e) \<Rightarrow> (add32 h0 a, add32 h1 b, add32 h2 c, add32 h3 d, add32 h4 e))"

fun sha1_blocks :: "nat \<Rightarrow> sha1_state \<Rightarrow> int list \<Rightarrow> sha1_state" where
  "sha1_blocks 0 s m = s"
| "sha1_blocks (Suc n) s m = sha1_blocks n (sha1_block s (take 64 m)) (drop 64 m)"

definition sha1 :: "int list \<Rightarrow> int list" where
  "sha1 m =
     (let p = sha1_pad m
      in case sha1_blocks (length p div 64)
                (1732584193, 4023233417, 2562383102, 271733878, 3285377520) p of
           (a, b, c, d, e) \<Rightarrow>
             be_bytes 4 a @ be_bytes 4 b @ be_bytes 4 c @ be_bytes 4 d @ be_bytes 4 e)"

definition hmac_sha1 :: "int list \<Rightarrow> int list \<Rightarrow> int list" where
  "hmac_sha1 key msg =
     (let k0 = (if 64 < length key then sha1 key else key);
          k = k0 @ replicate (64 - length k0) 0
      in sha1 (map (\<lambda>b. b XOR 92) k @ sha1 (map (\<lambda>b. b XOR 54) k @ msg)))"

text \<open>
  Base32 with the alphabet \<open>A\<close>..\<open>Z\<close>, \<open>2\<close>..\<open>7\<close>, in either case and without padding
  characters: five bits a character, every full group of eight bits a byte.
\<close>

definition b32_value :: "char \<Rightarrow> int option" where
  "b32_value c =
     (let n = (of_char c :: int)
      in if 65 \<le> n \<and> n \<le> 90 then Some (n - 65)
         else if 97 \<le> n \<and> n \<le> 122 then Some (n - 97)
         else if 50 \<le> n \<and> n \<le> 55 then Some (n - 24)
         else None)"

fun b32_bits :: "string \<Rightarrow> int list option" where
  "b32_bits [] = Some []"
| "b32_bits (c # cs) =
     (case b32_value c of
        None \<Rightarrow> None
      | Some v \<Rightarrow>
          (case b32_bits cs of
             None \<Rightarrow> None
           | Some bits \<Rightarrow>
               Some (v div 16 mod 2 # v div 8 mod 2 # v div 4 mod 2 # v div 2 mod 2 #
                     v mod 2 # bits)))"

fun bits_bytes :: "int list \<Rightarrow> int list" where
  "bits_bytes (b7 # b6 # b5 # b4 # b3 # b2 # b1 # b0 # r) =
     (((((((b7 * 2 + b6) * 2 + b5) * 2 + b4) * 2 + b3) * 2 + b2) * 2 + b1) * 2 + b0)
       # bits_bytes r"
| "bits_bytes r = []"

definition b32decode :: "string \<Rightarrow> int list option" where
  "b32decode s = map_option bits_bytes (b32_bits s)"

text \<open>
  Dynamic truncation: the low nibble of the last byte of the MAC is the offset of four
  bytes, read as a big-endian number and cut to 31 bits.
\<close>

definition dynamic_truncate :: "int list \<Rightarrow> int" where
  "dynamic_truncate mac =
     (let offset = nat (last mac mod 16)
      in case be_words (take 4 (drop offset mac)) of
           [] \<Rightarrow> 0
         | w # ws \<Rightarrow> w mod 2147483648)"

text \<open>The decimal digits of a number that is not negative.\<close>

function decimal :: "int \<Rightarrow> string" where
  "decimal n =
     (if n < 10 then [char_of (48 + n)] else decimal (n div 10) @ [char_of (48 + n mod 10)])"
  by pat_completeness auto
termination
  by (relation "measure nat") auto

definition zero_pad :: "nat \<Rightarrow> string \<Rightarrow> string" where
  "zero_pad width s = replicate (width - length s) CHR ''0'' @ s"

text \<open>
  Modelled from the spec: the generator. The script obtains its codes from the
  \<open>pyotp\<close> library, which is not among the sources; \<open>totp_code\<close> follows section 4.2
  of the specification: \<open>InvalidDigits\<close> for a digit count that is not in 1..10,
  \<open>InvalidSecret\<close> for a secret with a character outside the alphabet, and otherwise
  the counter of the 30 second step, its HMAC-SHA1 under the decoded secret, the
  truncation, the reduction modulo \<open>10 ^ digits\<close> and the padding with \<open>0\<close>. The time
  is in seconds since the epoch. \<open>generate\<close> is the same function on a descriptor, the
  contract of the specification.
\<close>

definition totp_code :: "string \<Rightarrow> int \<Rightarrow> int \<Rightarrow> error + string" where
  "totp_code sec n at_time =
     (if n \<le> 0 \<or> 10 < n then Inl InvalidDigits
      else case b32decode sec of
             None \<Rightarrow> Inl InvalidSecret
           | Some key \<Rightarrow>
               (let counter = at_time div 30;
                    mac = hmac_sha1 key (be_bytes 8 counter);
                    code = dynamic_truncate mac mod 10 ^ nat n
                in Inr (zero_pad (nat n) (decimal code))))"

definition generate :: "descriptor \<Rightarrow> int \<Rightarrow> error + string" where
  "generate d at_time = totp_code (secret d) (digits d) at_time"

section \<open>Auxiliary facts\<close>

subsection \<open>The extractor\<close>

lemma match_literal_iff:
  "match_literal p s = Some r \<longleftrightarrow> (\<exists>m. s = m @ r \<and> lower m = p)"
proof (induction p s rule: match_literal.induct)
  case (1 s)
  then show ?case by (auto simp: lower_def)
next
  case (2 p ps)
  then show ?case by (auto simp: lower_def)
next
  case (3 p ps c cs)
  show ?case
  proof (cases "lower_char c = p")
    case True
    have "(\<exists>m. c # cs = m @ r \<and> lower m = p # ps) \<longleftrightarrow> (\<exists>m'. cs = m' @ r \<and> lower m' = ps)"
    proof
      assume "\<exists>m. c # cs = m @ r \<and> lower m = p # ps"
      then obtain m where m: "c # cs = m @ r" "lower m = p # ps" by blast
      then obtain m' where "m = c # m'" by (cases m) (auto simp: lower_def)
      with m show "\<exists>m'. cs = m' @ r \<and> lower m' = ps" by (auto simp: lower_def)
    next
      assume "\<exists>m'. cs = m' @ r \<and> lower m' = ps"
      then obtain m' where "cs = m' @ r" "lower m' = ps" by blast
      with True have "c # cs = (c # m') @ r \<and> lower (c # m') = p # ps"
        by (simp add: lower_def)
      then show "\<exists>m. c # cs = m @ r \<and> lower m = p # ps" by blast
    qed
    with True 3 show ?thesis by simp
  next
    case False
    then have "\<not> (\<exists>m. c # cs = m @ r \<and> lower m = p # ps)"
      by (auto simp: lower_def Cons_eq_append_conv)
    with False show ?thesis by simp
  qed
qed

lemma match_at_unfold:
  "match_literal marker s = Some r \<Longrightarrow>
   match_at s =
     (if takeWhile (\<lambda>c. c \<noteq> CHR ''?'') r = [] then None
      else case dropWhile (\<lambda>c. c \<noteq> CHR ''?'') r of
             [] \<Rightarrow> None
           | x # r'' \<Rightarrow>
               if takeWhile (\<lambda>c. \<not> is_space c) r'' = [] then None
               else Some (takeWhile (\<lambda>c. c \<noteq> CHR ''?'') r, takeWhile (\<lambda>c. \<not> is_space c) r''))"
  by (simp add: match_at_def Let_def cong: list.case_cong)

lemma match_at_sound:
  assumes "match_at s = Some (lab, q)"
  shows "\<exists>m post. s = m @ lab @ CHR ''?'' # q @ post \<and> well_formed m lab q"
proof -
  from assms obtain r where r: "match_literal marker s = Some r"
    by (cases "match_literal marker s") (simp_all add: match_at_def)
  let ?g1 = "takeWhile (\<lambda>c. c \<noteq> CHR ''?'') r"
  let ?r' = "dropWhile (\<lambda>c. c \<noteq> CHR ''?'') r"
  note eq = match_at_unfold [OF r]
  have g1ne: "?g1 \<noteq> []"
    using assms eq by (cases "?g1 = []") simp_all
  obtain x r'' where r': "?r' = x # r''"
    using assms eq g1ne by (cases ?r') simp_all
  let ?g2 = "takeWhile (\<lambda>c. \<not> is_space c) r''"
  have g2ne: "?g2 \<noteq> []"
    using assms eq g1ne r' by (cases "?g2 = []") simp_all
  have res: "lab = ?g1" "q = ?g2"
    using assms eq g1ne r' g2ne by simp_all
  have x: "x = CHR ''?''"
    using hd_dropWhile [of "\<lambda>c. c \<noteq> CHR ''?''" r] r' by simp
  from r obtain m where m: "s = m @ r" "lower m = marker"
    unfolding match_literal_iff by blast
  have "r = ?g1 @ ?r'" by simp
  also have "\<dots> = lab @ CHR ''?'' # ?g2 @ dropWhile (\<lambda>c. \<not> is_space c) r''"
    unfolding r' x res by simp
  finally have s: "s = m @ lab @ CHR ''?'' # q @ dropWhile (\<lambda>c. \<not> is_space c) r''"
    using m res by simp
  have nq: "CHR ''?'' \<notin> set lab"
    unfolding res using set_takeWhileD [of "CHR ''?''" "\<lambda>c. c \<noteq> CHR ''?''" r] by blast
  have ns: "list_all (\<lambda>c. \<not> is_space c) q"
    unfolding res list_all_iff using set_takeWhileD [of _ "\<lambda>c. \<not> is_space c" r''] by blast
  have "well_formed m lab q"
    unfolding well_formed_def using m nq ns g1ne g2ne res by simp
  with s show ?thesis by blast
qed

lemma match_at_complete:
  assumes "well_formed m lab q"
  shows "\<exists>q'. match_at (m @ lab @ CHR ''?'' # q @ post) = Some (lab, q')"
proof -
  let ?r = "lab @ CHR ''?'' # q @ post"
  from assms have lit: "match_literal marker (m @ ?r) = Some ?r"
    by (auto simp: match_literal_iff well_formed_def)
  from assms have nq: "\<forall>c\<in>set lab. c \<noteq> CHR ''?''"
    by (auto simp: well_formed_def)
  then have tw: "takeWhile (\<lambda>c. c \<noteq> CHR ''?'') ?r = lab"
    by (simp add: takeWhile_tail [of "\<lambda>c. c \<noteq> CHR ''?''"])
  from nq have dw: "dropWhile (\<lambda>c. c \<noteq> CHR ''?'') ?r = CHR ''?'' # q @ post"
    by (simp add: dropWhile_append)
  from assms obtain c cs where q: "q = c # cs" "\<not> is_space c"
    by (cases q) (auto simp: well_formed_def)
  then have g2: "takeWhile (\<lambda>c. \<not> is_space c) (q @ post) \<noteq> []"
    by simp
  from assms have "lab \<noteq> []" by (simp add: well_formed_def)
  with lit tw dw g2 show ?thesis
    by (simp add: match_at_unfold)
qed

lemma re_search_sound:
  "re_search line = Some (lab, q) \<Longrightarrow>
   \<exists>pre m post. line = pre @ m @ lab @ CHR ''?'' # q @ post \<and> well_formed m lab q"
proof (induction line)
  case Nil
  then obtain m post where "[] = m @ lab @ CHR ''?'' # q @ post"
    using match_at_sound [of "[]" lab q] by auto
  then show ?case by simp
next
  case (Cons c cs)
  show ?case
  proof (cases "match_at (c # cs)")
    case None
    with Cons.prems have "re_search cs = Some (lab, q)" by simp
    then obtain pre m post where "cs = pre @ m @ lab @ CHR ''?'' # q @ post" "well_formed m lab q"
      using Cons.IH by blast
    then have "c # cs = (c # pre) @ m @ lab @ CHR ''?'' # q @ post \<and> well_formed m lab q"
      by simp
    then show ?thesis by blast
  next
    case (Some a)
    with Cons.prems have "match_at (c # cs) = Some (lab, q)" by simp
    then obtain m post where "c # cs = [] @ m @ lab @ CHR ''?'' # q @ post \<and> well_formed m lab q"
      using match_at_sound by fastforce
    then show ?thesis by blast
  qed
qed

lemma re_search_complete:
  "match_at s \<noteq> None \<Longrightarrow> re_search (pre @ s) \<noteq> None"
proof (induction pre)
  case Nil
  then show ?case by (cases s) auto
next
  case (Cons c pre)
  then show ?case by (cases "match_at (c # pre @ s)") auto
qed

lemma split_once_first:
  "CHR ''='' \<notin> set k \<Longrightarrow> split_once (k @ CHR ''='' # v) = Some (k, v)"
  by (simp add: split_once_def takeWhile_tail dropWhile_append)

lemma split_once_none: "split_once kv = None \<longleftrightarrow> CHR ''='' \<notin> set kv"
  by (simp add: split_once_def)

lemma split_on_first:
  "d \<notin> set a \<Longrightarrow> split_on d (a @ d # b) = a # split_on d b"
  by (induction a) auto

lemma split_on_single: "d \<notin> set a \<Longrightarrow> split_on d a = [a]"
  by (induction a) auto

lemma add_param_None: "split_once kv = None \<Longrightarrow> add_param params kv = params"
  by (simp add: add_param_def)

lemma add_param_Some:
  "split_once kv = Some (k, v) \<Longrightarrow> add_param params kv = params(lower k \<mapsto> v)"
  by (simp add: add_param_def)

lemma map_filter_append:
  "List.map_filter f (xs @ ys) = List.map_filter f xs @ List.map_filter f ys"
  by (simp add: List.map_filter_def)

lemma foldl_add_param:
  "foldl add_param params kvs key =
     (case filter (\<lambda>(k, v). lower k = key) (List.map_filter split_once kvs) of
        [] \<Rightarrow> params key
      | p # ps \<Rightarrow> Some (snd (last (p # ps))))"
proof (induction kvs arbitrary: params)
  case Nil
  then show ?case by (simp add: List.map_filter_simps)
next
  case (Cons kv kvs)
  show ?case
  proof (cases "split_once kv")
    case None
    then show ?thesis
      by (simp add: Cons.IH add_param_None List.map_filter_simps)
  next
    case (Some kv')
    obtain k v where kv': "kv' = (k, v)" by (cases kv')
    show ?thesis
      using Some kv'
      by (cases "filter (\<lambda>(k, v). lower k = key) (List.map_filter split_once kvs)")
        (auto simp: Cons.IH add_param_Some List.map_filter_simps)
  qed
qed

lemma foldl_add_param_other:
  assumes "\<forall>k v. split_once kv = Some (k, v) \<longrightarrow> lower k \<noteq> key"
  shows "foldl add_param params (xs @ kv # ys) key = foldl add_param params (xs @ ys) key"
proof -
  have "filter (\<lambda>(k, v). lower k = key) (List.map_filter split_once [kv]) = []"
  proof (cases "split_once kv")
    case None
    then show ?thesis by (simp add: List.map_filter_simps)
  next
    case (Some kv')
    obtain k v where "kv' = (k, v)" by (cases kv')
    with Some assms show ?thesis by (simp add: List.map_filter_simps)
  qed
  moreover have "List.map_filter split_once (xs @ kv # ys) =
      List.map_filter split_once xs @ List.map_filter split_once [kv] @
      List.map_filter split_once ys"
    using map_filter_append [of split_once xs "[kv] @ ys"]
      map_filter_append [of split_once "[kv]" ys]
    by simp
  ultimately have "filter (\<lambda>(k, v). lower k = key) (List.map_filter split_once (xs @ kv # ys)) =
      filter (\<lambda>(k, v). lower k = key) (List.map_filter split_once (xs @ ys))"
    by (simp add: map_filter_append)
  then show ?thesis by (simp only: foldl_add_param)
qed

lemma starts_with_prefix: "starts_with a b = prefix a b"
  by (induction a b rule: starts_with.induct) auto

lemma py_in_sublist: "py_in a b = sublist a b"
  by (induction b) (auto simp: starts_with_prefix sublist_Cons_right)

lemma parse_first_match_parts:
  "re_search line = Some (lab, q) \<Longrightarrow>
   parse_first_match line needle =
     (if \<not> py_in (lower needle) (lower lab) then Inr None
      else case parse_params q ''secret'' of
             None \<Rightarrow> Inr None
           | Some sec \<Rightarrow>
               if sec = [] then Inr None
               else (case (case parse_params q ''digits'' of None \<Rightarrow> Inr 6 | Some v \<Rightarrow> py_int v) of
                       Inl e \<Rightarrow> Inl e
                     | Inr n \<Rightarrow> Inr (Some \<lparr>label = lab, secret = sec, digits = n\<rparr>)))"
  by (simp add: parse_first_match_def Let_def)

lemma parse_params_lookup:
  "parse_params query key =
     (case filter (\<lambda>(k, v). lower k = key)
             (List.map_filter split_once (split_on CHR ''&'' query)) of
        [] \<Rightarrow> None
      | p # ps \<Rightarrow> Some (snd (last (p # ps))))"
  unfolding parse_params_def foldl_add_param by simp

subsection \<open>The pipeline\<close>

lemma not_passes_None:
  "\<not> passes_filters line needle \<Longrightarrow> parse_first_match line needle = Inr None"
  by (auto simp: passes_filters_def parse_first_match_def split: option.splits prod.splits)

lemma Some_passes:
  "parse_first_match line needle = Inr (Some d) \<Longrightarrow> passes_filters line needle"
  by (auto simp: passes_filters_def parse_first_match_def Let_def
      split: option.splits prod.splits if_splits sum.splits)

lemma search_skip:
  "\<forall>l\<in>set pre. parse_first_match l needle = Inr None \<Longrightarrow>
   search_and_generate_oauth totp clip (pre @ rest) needle =
   search_and_generate_oauth totp clip rest needle"
  by (induction pre) auto

lemma search_not_found:
  "\<forall>l\<in>set ls. parse_first_match l needle = Inr None \<Longrightarrow>
   search_and_generate_oauth totp clip ls needle =
   Inr \<lparr>found = False, printed = [Box False], unread = [], generated = []\<rparr>"
  by (induction ls) auto

lemma search_found_iff:
  "search_and_generate_oauth totp clip ls needle = Inr r \<Longrightarrow>
   found r = (\<exists>l\<in>set ls. \<exists>d. parse_first_match l needle = Inr (Some d))"
proof (induction ls)
  case Nil
  then show ?case by auto
next
  case (Cons l ls)
  then show ?case
    by (cases "parse_first_match l needle") (auto split: option.splits sum.splits simp: Let_def)
qed

lemma search_clip_indep:
  "map_sum id found (search_and_generate_oauth totp clip ls needle) =
   map_sum id found (search_and_generate_oauth totp clip' ls needle)"
  by (induction ls) (auto split: option.splits sum.splits simp: Let_def)

lemma search_found_printed:
  "search_and_generate_oauth totp clip ls needle = Inr r \<Longrightarrow> found r \<Longrightarrow>
   \<exists>s n code. generated r = [(s, n)] \<and> totp s n = Inr code \<and>
     printed r = (if clip code then [Box True] else [Box False, Line code])"
proof (induction ls)
  case Nil
  then show ?case by auto
next
  case (Cons l ls)
  then show ?case
    by (cases "parse_first_match l needle") (auto split: option.splits sum.splits simp: Let_def)
qed


lemma candidate_parse:
  assumes "re_search line = Some (lab, q)" "py_in (lower needle) (lower lab)"
    "parse_params q ''secret'' = Some sec" "sec \<noteq> []"
  shows "parse_first_match line needle =
     (case (case parse_params q ''digits'' of None \<Rightarrow> Inr 6 | Some v \<Rightarrow> py_int v) of
        Inl e \<Rightarrow> Inl e
      | Inr n \<Rightarrow> Inr (Some \<lparr>label = lab, secret = sec, digits = n\<rparr>))"
  using assms by (simp add: parse_first_match_parts)

lemma search_candidate:
  assumes "\<forall>l\<in>set pre. \<not> passes_filters l needle"
  shows "search_and_generate_oauth totp clip (pre @ line # post) needle =
     (case parse_first_match line needle of
        Inl e \<Rightarrow> Inl e
      | Inr None \<Rightarrow> search_and_generate_oauth totp clip post needle
      | Inr (Some data) \<Rightarrow>
          (case totp (secret data) (digits data) of
             Inl e \<Rightarrow> Inl e
           | Inr code \<Rightarrow>
               Inr \<lparr>found = True,
                    printed = Box (clip code) # (if clip code then [] else [Line code]),
                    unread = post,
                    generated = [(secret data, digits data)]\<rparr>))"
proof -
  from assms have "\<forall>l\<in>set pre. parse_first_match l needle = Inr None"
    by (simp add: not_passes_None)
  then have "search_and_generate_oauth totp clip (pre @ line # post) needle =
      search_and_generate_oauth totp clip (line # post) needle"
    by (rule search_skip)
  then show ?thesis
    by (simp add: Let_def split: sum.splits option.splits)
qed

lemma py_int_error: "py_int v = Inl e \<Longrightarrow> e = ValueError"
  by (auto simp: py_int_def split: list.splits if_splits option.splits)

lemma int_digits_chars:
  "int_digits acc cs = Some n \<Longrightarrow> \<forall>c\<in>set cs. c = CHR ''_'' \<or> digit_val c \<noteq> None"
  by (induction acc cs arbitrary: n rule: int_digits.induct)
    (auto split: if_splits option.splits)

lemma int_unsigned_chars:
  "int_unsigned s = Some n \<Longrightarrow> s \<noteq> [] \<and> (\<forall>c\<in>set s. c = CHR ''_'' \<or> digit_val c \<noteq> None)"
  by (cases s) (auto simp: int_unsigned_def split: option.splits dest: int_digits_chars)

lemma py_int_chars:
  assumes "py_int v = Inr n"
  shows "v \<noteq> [] \<and>
    (\<forall>c\<in>set v. c = CHR ''+'' \<or> c = CHR ''-'' \<or> c = CHR ''_'' \<or> digit_val c \<noteq> None)"
proof (cases v)
  case Nil
  with assms show ?thesis by (simp add: py_int_def)
next
  case (Cons c cs)
  consider "c = CHR ''-''" | "c \<noteq> CHR ''-''" "c = CHR ''+''" | "c \<noteq> CHR ''-''" "c \<noteq> CHR ''+''"
    by blast
  then show ?thesis
  proof cases
    case 1
    with assms Cons obtain m where "int_unsigned cs = Some m"
      by (auto simp: py_int_def split: option.splits)
    with Cons 1 show ?thesis
      using int_unsigned_chars [of cs m] by auto
  next
    case 2
    with assms Cons obtain m where "int_unsigned cs = Some m"
      by (auto simp: py_int_def split: option.splits)
    with Cons 2 show ?thesis
      using int_unsigned_chars [of cs m] by auto
  next
    case 3
    with assms Cons obtain m where "int_unsigned v = Some m"
      by (auto simp: py_int_def split: option.splits)
    then show ?thesis
      using int_unsigned_chars [of v m] by auto
  qed
qed

lemma totp_code_bad_secret:
  "b32decode sec = None \<Longrightarrow>
   totp_code sec n t = (if n \<le> 0 \<or> 10 < n then Inl InvalidDigits else Inl InvalidSecret)"
  by (simp add: totp_code_def)

subsection \<open>The generator\<close>

lemma length_be_bytes: "length (be_bytes k n) = k"
  by (induction k arbitrary: n) auto

lemma length_sha1: "length (sha1 m) = 20"
proof -
  obtain a b c d e where
    "sha1_blocks (length (sha1_pad m) div 64)
       (1732584193, 4023233417, 2562383102, 271733878, 3285377520) (sha1_pad m) = (a, b, c, d, e)"
    using prod_cases5 by blast
  then show ?thesis
    by (simp add: sha1_def Let_def length_be_bytes)
qed

lemma length_hmac_sha1: "length (hmac_sha1 key msg) = 20"
  unfolding hmac_sha1_def Let_def by (rule length_sha1)


lemma dynamic_truncate_window:
  assumes "length mac = 20"
  shows "\<exists>i. i + 4 \<le> length mac \<and> int i = last mac mod 16 \<and>
     dynamic_truncate mac =
       (((mac ! i * 256 + mac ! (i + 1)) * 256 + mac ! (i + 2)) * 256 + mac ! (i + 3))
         mod 2147483648"
proof -
  define i where "i = nat (last mac mod 16)"
  have b: "0 \<le> last mac mod 16" "last mac mod 16 < 16"
    by simp_all
  then have i: "i + 4 \<le> length mac" "int i = last mac mod 16"
    using assms unfolding i_def by linarith+
  have d0: "drop i mac = mac ! i # drop (Suc i) mac"
    using Cons_nth_drop_Suc [of i mac] i by simp
  have d1: "drop (Suc i) mac = mac ! (i + 1) # drop (Suc (Suc i)) mac"
    using Cons_nth_drop_Suc [of "Suc i" mac] i by simp
  have d2: "drop (Suc (Suc i)) mac = mac ! (i + 2) # drop (Suc (Suc (Suc i))) mac"
    using Cons_nth_drop_Suc [of "Suc (Suc i)" mac] i by simp
  have d3: "drop (Suc (Suc (Suc i))) mac = mac ! (i + 3) # drop (Suc (Suc (Suc (Suc i)))) mac"
    using Cons_nth_drop_Suc [of "Suc (Suc (Suc i))" mac] i by (simp add: numeral_3_eq_3)
  have "take 4 (drop i mac) = [mac ! i, mac ! (i + 1), mac ! (i + 2), mac ! (i + 3)]"
    unfolding d0 d1 d2 d3 by simp
  then have "dynamic_truncate mac =
      (((mac ! i * 256 + mac ! (i + 1)) * 256 + mac ! (i + 2)) * 256 + mac ! (i + 3))
         mod 2147483648"
    unfolding dynamic_truncate_def Let_def i_def [symmetric] by simp
  with i show ?thesis by blast
qed

lemma dynamic_truncate_range: "0 \<le> dynamic_truncate mac \<and> dynamic_truncate mac < 2147483648"
  by (simp add: dynamic_truncate_def Let_def split: list.splits)

lemma digit_chars_all: "\<forall>n\<in>set [0..9::int]. char_of (48 + n) \<in> set ''0123456789''"
  by code_simp

lemma digit_char:
  assumes "0 \<le> n" "n < 10"
  shows "char_of (48 + n :: int) \<in> set ''0123456789''"
proof -
  from assms have "n \<in> set [0..9]"
    unfolding set_upto by simp
  with digit_chars_all show ?thesis by blast
qed

lemma decimal_digits: "0 \<le> n \<Longrightarrow> set (decimal n) \<subseteq> set ''0123456789''"
proof (induction n rule: decimal.induct)
  case (1 n)
  show ?case
  proof (cases "n < 10")
    case True
    with 1(2) have "char_of (48 + n) \<in> set ''0123456789''"
      by (intro digit_char)
    with True show ?thesis
      by (subst decimal.simps) simp
  next
    case False
    then have "0 \<le> n div 10" by simp
    with 1(1) False have "set (decimal (n div 10)) \<subseteq> set ''0123456789''"
      by blast
    moreover have "char_of (48 + n mod 10) \<in> set ''0123456789''"
      by (intro digit_char) simp_all
    ultimately show ?thesis
      using False by (subst decimal.simps) simp
  qed
qed

lemma decimal_length: "0 \<le> n \<Longrightarrow> n < 10 ^ k \<Longrightarrow> 0 < k \<Longrightarrow> length (decimal n) \<le> k"
proof (induction n arbitrary: k rule: decimal.induct)
  case (1 n)
  show ?case
  proof (cases "n < 10")
    case True
    with 1(4) show ?thesis
      by (subst decimal.simps) simp
  next
    case False
    obtain j where k: "k = Suc j" using 1(4) by (cases k) auto
    have "j \<noteq> 0"
      using False 1(3) k by (cases j) auto
    moreover have "n div 10 < 10 ^ j"
      using 1(3) k by simp
    moreover have "0 \<le> n div 10" using 1(2) by simp
    ultimately have "length (decimal (n div 10)) \<le> j"
      using 1(1) [of j] False by simp
    then show ?thesis
      using False k by (subst decimal.simps) simp
  qed
qed

lemma length_zero_pad: "length s \<le> w \<Longrightarrow> length (zero_pad w s) = w"
  by (simp add: zero_pad_def)

lemma set_zero_pad: "set (zero_pad w s) \<subseteq> insert CHR ''0'' (set s)"
  by (auto simp: zero_pad_def)

lemma b32_bits_None: "b32_bits s = None \<longleftrightarrow> (\<exists>c\<in>set s. b32_value c = None)"
  by (induction s) (auto split: option.splits)

lemma b32decode_None: "b32decode s = None \<longleftrightarrow> (\<exists>c\<in>set s. b32_value c = None)"
  by (simp add: b32decode_def b32_bits_None)

lemma be_bytes_value: "foldl (\<lambda>a b. a * 256 + b) 0 (be_bytes k n) = n mod 256 ^ k"
proof (induction k arbitrary: n)
  case 0
  then show ?case by simp
next
  case (Suc k)
  have "n mod (256 * 256 ^ k) = 256 * (n div 256 mod 256 ^ k) + n mod 256"
    by (rule zmod_zmult2_eq) simp
  with Suc show ?case by (simp add: mult.commute)
qed

lemma totp_code_ok:
  assumes "b32decode sec = Some key" "0 < n" "n \<le> 10"
  shows "totp_code sec n t =
     Inr (zero_pad (nat n)
       (decimal (dynamic_truncate (hmac_sha1 key (be_bytes 8 (t div 30))) mod 10 ^ nat n)))"
  using assms by (simp add: totp_code_def Let_def)

lemma code_shape:
  assumes "0 < k"
  shows "length (zero_pad k (decimal (x mod 10 ^ k))) = k \<and>
     set (zero_pad k (decimal (x mod 10 ^ k))) \<subseteq> set ''0123456789''"
proof -
  have r: "0 \<le> x mod 10 ^ k" "x mod 10 ^ k < 10 ^ k"
    by simp_all
  then have "length (decimal (x mod 10 ^ k)) \<le> k"
    using assms by (intro decimal_length)
  then have "length (zero_pad k (decimal (x mod 10 ^ k))) = k"
    by (rule length_zero_pad)
  have "set (decimal (x mod 10 ^ k)) \<subseteq> set ''0123456789''"
    using r(1) by (rule decimal_digits)
  moreover have "CHR ''0'' \<in> set ''0123456789''"
    by simp
  ultimately have "set (zero_pad k (decimal (x mod 10 ^ k))) \<subseteq> set ''0123456789''"
    using set_zero_pad [of k "decimal (x mod 10 ^ k)"] by blast
  moreover note \<open>length (zero_pad k (decimal (x mod 10 ^ k))) = k\<close>
  ultimately show ?thesis by blast
qed

lemma sha1_abc:
  "sha1 (map of_char ''abc'') =
     [169, 153, 62, 54, 71, 6, 129, 106, 186, 62, 37, 113, 120, 80, 194, 108, 156, 208, 216, 157]"
  by code_simp

lemma hmac_sha1_long_key:
  "hmac_sha1 (replicate 80 170)
     (map of_char ''Test Using Larger Than Block-Size Key - Hash Key First'') =
     [170, 74, 229, 225, 82, 114, 208, 14, 149, 112, 86, 55, 206, 138, 59, 85, 237, 64, 33, 18]"
  by code_simp

lemma b32decode_rfc_key:
  "b32decode ''GEZDGNBVGY3TQOJQGEZDGNBVGY3TQOJQ'' = Some (map of_char ''12345678901234567890'')"
  by code_simp

lemma totp_rfc_59: "totp_code ''GEZDGNBVGY3TQOJQGEZDGNBVGY3TQOJQ'' 8 59 = Inr ''94287082''"
  by code_simp

lemma totp_rfc_1111111109:
  "totp_code ''GEZDGNBVGY3TQOJQGEZDGNBVGY3TQOJQ'' 8 1111111109 = Inr ''07081804''"
  by code_simp

lemma zero_pad_42: "zero_pad 6 (decimal 42) = ''000042''"
  by code_simp

lemma sha1_pad_length: "length (sha1_pad m) mod 64 = 0"
proof -
  define n where "n = length m"
  define r where "r = n mod 64"
  define q where "q = n div 64"
  have n: "n = 64 * q + r" and r: "r < 64"
    by (simp_all add: r_def q_def)
  have "(n + (1 + ((119 - r) mod 64 + 8))) mod 64 = 0"
  proof (cases "r \<le> 55")
    case True
    then have e: "119 - r = 64 + (55 - r)" by simp
    have "(119 - r) mod 64 = (64 + (55 - r)) mod 64"
      by (simp only: e)
    also have "\<dots> = (55 - r) mod 64"
      by (simp only: mod_add_self1)
    also have "\<dots> = 55 - r"
      by (rule mod_less) arith
    finally have "(119 - r) mod 64 = 55 - r" .
    then have eq: "n + (1 + ((119 - r) mod 64 + 8)) = 64 * (q + 1)"
      using n True by simp
    show ?thesis by (simp only: eq mod_mult_self1_is_0)
  next
    case False
    with r have "(119 - r) mod 64 = 119 - r" by simp
    then have eq: "n + (1 + ((119 - r) mod 64 + 8)) = 64 * (q + 2)"
      using n r False by simp
    show ?thesis by (simp only: eq mod_mult_self1_is_0)
  qed
  then show ?thesis
    by (simp add: sha1_pad_def length_be_bytes n_def r_def)
qed

lemma sha1_two_blocks:
  "sha1 (map of_char ''abcdbcdecdefdefgefghfghighijhijkijkljklmklmnlmnomnopnopq'') =
     [132, 152, 62, 68, 28, 59, 210, 110, 186, 174, 74, 161, 249, 81, 41, 229, 229, 70, 112, 241]"
  by code_simp

lemma b32decode_examples:
  "b32decode ''gezdgnbvgy3tqojq'' = Some (map of_char ''1234567890'')"
  "b32decode ''MFRGG'' = Some (map of_char ''abc'')"
  "b32decode ''GEZDGNBVGY3TQOJ1'' = None"
  by code_simp+

section \<open>The claims\<close>

text \<open>
  C1, as amended. For a descriptor whose secret decodes to \<open>key\<close> and whose digits are in
  1..10, the code at the time \<open>t\<close> is the HMAC-SHA1 of the eight bytes of \<open>t div 30\<close> under
  \<open>key\<close>, truncated, reduced modulo \<open>10 ^ digits\<close> and padded with \<open>0\<close>; it has exactly
  \<open>digits\<close> characters, all decimal digits. The truncation reads four bytes inside the 20
  bytes of the MAC, at the offset given by the low nibble of the last byte, and keeps 31
  bits. The secret of the RFC 6238 vectors is the base32 text of the 20 bytes
  \<open>12345678901234567890\<close>, which is \<open>GEZDGNBVGY3TQOJQGEZDGNBVGY3TQOJQ\<close>: with it and 8
  digits, the code at the time 59 is \<open>94287082\<close> and at 1111111109 it is \<open>07081804\<close>.
  SHA-1 and HMAC are also checked on two vectors of FIPS 180 and on one of RFC 2202
  whose key is longer than a block; the padded message is a whole number of blocks; and
  the decoding of the secret accepts lower case and a length that is no multiple of 8.
\<close>

theorem generate_rfc6238:
  "(b32decode (secret d) = Some key \<longrightarrow> 0 < digits d \<longrightarrow> digits d \<le> 10 \<longrightarrow>
      generate d t =
        Inr (zero_pad (nat (digits d))
          (decimal (dynamic_truncate (hmac_sha1 key (be_bytes 8 (t div 30)))
             mod 10 ^ nat (digits d)))) \<and>
      (\<exists>code. generate d t = Inr code \<and> length code = nat (digits d) \<and>
         set code \<subseteq> set ''0123456789'')) \<and>
   (b32decode (secret d) = None \<longrightarrow> 0 < digits d \<longrightarrow> digits d \<le> 10 \<longrightarrow>
      generate d t = Inl InvalidSecret) \<and>
   (b32decode s = None \<longleftrightarrow> (\<exists>c\<in>set s. b32_value c = None)) \<and>
   length (be_bytes 8 n) = 8 \<and>
   foldl (\<lambda>a b. a * 256 + b) 0 (be_bytes 8 n) = n mod 2 ^ 64 \<and>
   length (hmac_sha1 k m) = 20 \<and>
   (\<exists>i. i + 4 \<le> length (hmac_sha1 k m) \<and> int i = last (hmac_sha1 k m) mod 16 \<and>
      dynamic_truncate (hmac_sha1 k m) =
        (((hmac_sha1 k m ! i * 256 + hmac_sha1 k m ! (i + 1)) * 256 + hmac_sha1 k m ! (i + 2)) * 256
           + hmac_sha1 k m ! (i + 3)) mod 2147483648) \<and>
   sha1 (map of_char ''abc'') =
     [169, 153, 62, 54, 71, 6, 129, 106, 186, 62, 37, 113, 120, 80, 194, 108, 156, 208, 216, 157] \<and>
   hmac_sha1 (replicate 80 170)
     (map of_char ''Test Using Larger Than Block-Size Key - Hash Key First'') =
     [170, 74, 229, 225, 82, 114, 208, 14, 149, 112, 86, 55, 206, 138, 59, 85, 237, 64, 33, 18] \<and>
   length (sha1_pad m') mod 64 = 0 \<and>
   sha1 (map of_char ''abcdbcdecdefdefgefghfghighijhijkijkljklmklmnlmnomnopnopq'') =
     [132, 152, 62, 68, 28, 59, 210, 110, 186, 174, 74, 161, 249, 81, 41, 229, 229, 70, 112, 241] \<and>
   zero_pad 6 (decimal 42) = ''000042'' \<and>
   b32decode ''gezdgnbvgy3tqojq'' = Some (map of_char ''1234567890'') \<and>
   b32decode ''MFRGG'' = Some (map of_char ''abc'') \<and>
   b32decode ''GEZDGNBVGY3TQOJ1'' = None \<and>
   b32decode ''GEZDGNBVGY3TQOJQGEZDGNBVGY3TQOJQ'' = Some (map of_char ''12345678901234567890'') \<and>
   generate \<lparr>label = lab, secret = ''GEZDGNBVGY3TQOJQGEZDGNBVGY3TQOJQ'', digits = 8\<rparr> 59 =
     Inr ''94287082'' \<and>
   generate \<lparr>label = lab, secret = ''GEZDGNBVGY3TQOJQGEZDGNBVGY3TQOJQ'', digits = 8\<rparr> 1111111109 =
     Inr ''07081804''"
proof (intro conjI impI)
  assume a: "b32decode (secret d) = Some key" "0 < digits d" "digits d \<le> 10"
  then show g: "generate d t =
        Inr (zero_pad (nat (digits d))
          (decimal (dynamic_truncate (hmac_sha1 key (be_bytes 8 (t div 30)))
             mod 10 ^ nat (digits d))))"
    unfolding generate_def by (rule totp_code_ok)
  from a(2) have "0 < nat (digits d)" by simp
  from code_shape [OF this] g
  show "\<exists>code. generate d t = Inr code \<and> length code = nat (digits d) \<and>
         set code \<subseteq> set ''0123456789''"
    by blast
next
  assume "b32decode (secret d) = None" "0 < digits d" "digits d \<le> 10"
  then show "generate d t = Inl InvalidSecret"
    by (simp add: generate_def totp_code_bad_secret)
next
  show "b32decode s = None \<longleftrightarrow> (\<exists>c\<in>set s. b32_value c = None)"
    by (rule b32decode_None)
next
  show "length (be_bytes 8 n) = 8"
    by (rule length_be_bytes)
next
  have "(256::int) ^ 8 = 2 ^ 64" by simp
  then show "foldl (\<lambda>a b. a * 256 + b) 0 (be_bytes 8 n) = n mod 2 ^ 64"
    using be_bytes_value [of 8 n] by simp
next
  show "length (hmac_sha1 k m) = 20"
    by (rule length_hmac_sha1)
next
  show "\<exists>i. i + 4 \<le> length (hmac_sha1 k m) \<and> int i = last (hmac_sha1 k m) mod 16 \<and>
      dynamic_truncate (hmac_sha1 k m) =
        (((hmac_sha1 k m ! i * 256 + hmac_sha1 k m ! (i + 1)) * 256 + hmac_sha1 k m ! (i + 2)) * 256
           + hmac_sha1 k m ! (i + 3)) mod 2147483648"
    by (rule dynamic_truncate_window) (rule length_hmac_sha1)
next
  show "sha1 (map of_char ''abc'') =
     [169, 153, 62, 54, 71, 6, 129, 106, 186, 62, 37, 113, 120, 80, 194, 108, 156, 208, 216, 157]"
    by (rule sha1_abc)
next
  show "hmac_sha1 (replicate 80 170)
     (map of_char ''Test Using Larger Than Block-Size Key - Hash Key First'') =
     [170, 74, 229, 225, 82, 114, 208, 14, 149, 112, 86, 55, 206, 138, 59, 85, 237, 64, 33, 18]"
    by (rule hmac_sha1_long_key)
next
  show "length (sha1_pad m') mod 64 = 0"
    by (rule sha1_pad_length)
next
  show "sha1 (map of_char ''abcdbcdecdefdefgefghfghighijhijkijkljklmklmnlmnomnopnopq'') =
     [132, 152, 62, 68, 28, 59, 210, 110, 186, 174, 74, 161, 249, 81, 41, 229, 229, 70, 112, 241]"
    by (rule sha1_two_blocks)
next
  show "zero_pad 6 (decimal 42) = ''000042''"
    by (rule zero_pad_42)
next
  show "b32decode ''gezdgnbvgy3tqojq'' = Some (map of_char ''1234567890'')"
    by (rule b32decode_examples)
next
  show "b32decode ''MFRGG'' = Some (map of_char ''abc'')"
    by (rule b32decode_examples)
next
  show "b32decode ''GEZDGNBVGY3TQOJ1'' = None"
    by (rule b32decode_examples)
next
  show "b32decode ''GEZDGNBVGY3TQOJQGEZDGNBVGY3TQOJQ'' = Some (map of_char ''12345678901234567890'')"
    by (rule b32decode_rfc_key)
next
  show "generate \<lparr>label = lab, secret = ''GEZDGNBVGY3TQOJQGEZDGNBVGY3TQOJQ'', digits = 8\<rparr> 59 =
     Inr ''94287082''"
    using totp_rfc_59 by (simp add: generate_def)
next
  show "generate \<lparr>label = lab, secret = ''GEZDGNBVGY3TQOJQGEZDGNBVGY3TQOJQ'', digits = 8\<rparr>
      1111111109 = Inr ''07081804''"
    using totp_rfc_1111111109 by (simp add: generate_def)
qed

theorem generate_rfc6238_witness:
  "\<exists>code. generate \<lparr>label = ''rfc'', secret = ''GEZDGNBVGY3TQOJQGEZDGNBVGY3TQOJQ'', digits = 8\<rparr> 59 =
       Inr code \<and>
     code = ''94287082'' \<and> length code = 8 \<and> set code \<subseteq> set ''0123456789''"
proof -
  let ?d = "\<lparr>label = ''rfc'', secret = ''GEZDGNBVGY3TQOJQGEZDGNBVGY3TQOJQ'', digits = 8\<rparr>"
  note t = generate_rfc6238 [where d = ?d and key = "map of_char ''12345678901234567890''"
      and t = 59 and lab = "''rfc''"]
  have h: "b32decode (secret ?d) = Some (map of_char ''12345678901234567890'')"
    "0 < digits ?d" "digits ?d \<le> 10"
    using b32decode_rfc_key by simp_all
  from t h obtain code where c: "generate ?d 59 = Inr code" "length code = nat (digits ?d)"
    "set code \<subseteq> set ''0123456789''"
    by blast
  from t have v: "generate ?d 59 = Inr ''94287082''"
    by blast
  from c v have "code = ''94287082''"
    by simp
  moreover from c(2) have "length code = 8"
    by simp
  ultimately show ?thesis
    using c by blast
qed

text \<open>
  The secret \<open>GEZDGNBVGY3TQOJQ\<close> of the claim decodes to the ten bytes \<open>1234567890\<close>; with
  it and 8 digits the codes at the times 59 and 1111111109 are \<open>13263420\<close> and \<open>93343526\<close>,
  not those of the RFC. With 11 digits no code is generated.
\<close>

theorem short_secret_counterexample:
  "b32decode ''GEZDGNBVGY3TQOJQ'' = Some (map of_char ''1234567890'') \<and>
   generate \<lparr>label = ''rfc'', secret = ''GEZDGNBVGY3TQOJQ'', digits = 8\<rparr> 59 = Inr ''13263420'' \<and>
   generate \<lparr>label = ''rfc'', secret = ''GEZDGNBVGY3TQOJQ'', digits = 8\<rparr> 1111111109 =
     Inr ''93343526'' \<and>
   generate \<lparr>label = ''rfc'', secret = ''GEZDGNBVGY3TQOJQ'', digits = 11\<rparr> 59 = Inl InvalidDigits"
  by code_simp



text \<open>
  C3, as amended. Let \<open>line\<close> be the first line on which the pattern is found, the label
  holds the needle and the \<open>secret\<close> key has a non-empty value. Without a \<open>digits\<close> key its
  descriptor has the digits 6. With a \<open>digits\<close> value that \<open>int\<close> rejects, the run ends with
  \<open>ValueError\<close>, whatever the later lines are; a value that \<open>int\<close> accepts (a non-empty text
  of signs, underscores and decimal digits) is taken as it is, never replaced by the
  default. An error of the generator ends the run as well: with the generator of the
  specification, a secret that is not base32 ends it with an error, which is
  \<open>InvalidSecret\<close> when the digits are in 1..10.
\<close>

theorem candidate_line:
  assumes "\<forall>l\<in>set pre. \<not> passes_filters l needle"
    and "re_search line = Some (lab, q)" and "py_in (lower needle) (lower lab)"
    and "parse_params q ''secret'' = Some sec" and "sec \<noteq> []"
  shows "(parse_params q ''digits'' = None \<longrightarrow>
       parse_first_match line needle =
         Inr (Some \<lparr>label = lab, secret = sec, digits = 6\<rparr>)) \<and>
     (\<forall>v e. parse_params q ''digits'' = Some v \<longrightarrow> py_int v = Inl e \<longrightarrow>
        e = ValueError \<and> parse_first_match line needle = Inl ValueError \<and>
        search_and_generate_oauth totp clip (pre @ line # post) needle = Inl ValueError) \<and>
     (\<forall>v n. parse_params q ''digits'' = Some v \<longrightarrow> py_int v = Inr n \<longrightarrow>
        parse_first_match line needle =
          Inr (Some \<lparr>label = lab, secret = sec, digits = n\<rparr>)) \<and>
     (\<forall>d e. parse_first_match line needle = Inr (Some d) \<longrightarrow>
        totp (secret d) (digits d) = Inl e \<longrightarrow>
        search_and_generate_oauth totp clip (pre @ line # post) needle = Inl e) \<and>
     (b32decode sec = None \<longrightarrow>
        (\<exists>e. search_and_generate_oauth (\<lambda>s k. totp_code s k t) clip (pre @ line # post) needle =
           Inl e) \<and>
        (\<forall>d. parse_first_match line needle = Inr (Some d) \<longrightarrow> 0 < digits d \<longrightarrow>
           digits d \<le> 10 \<longrightarrow>
           search_and_generate_oauth (\<lambda>s k. totp_code s k t) clip (pre @ line # post) needle =
             Inl InvalidSecret)) \<and>
     (\<forall>v n. py_int v = Inr n \<longrightarrow>
        v \<noteq> [] \<and>
        (\<forall>c\<in>set v. c = CHR ''+'' \<or> c = CHR ''-'' \<or> c = CHR ''_'' \<or> digit_val c \<noteq> None))"
proof -
  note pfm = candidate_parse [OF assms(2-5)]
  note run = search_candidate [OF assms(1), of _ clip line post]
  have c1: "parse_params q ''digits'' = None \<longrightarrow>
       parse_first_match line needle = Inr (Some \<lparr>label = lab, secret = sec, digits = 6\<rparr>)"
    by (simp add: pfm)
  have c2: "\<forall>v e. parse_params q ''digits'' = Some v \<longrightarrow> py_int v = Inl e \<longrightarrow>
        e = ValueError \<and> parse_first_match line needle = Inl ValueError \<and>
        search_and_generate_oauth totp clip (pre @ line # post) needle = Inl ValueError"
  proof (intro allI impI)
    fix v e
    assume v: "parse_params q ''digits'' = Some v" "py_int v = Inl e"
    then have e: "e = ValueError" by (simp add: py_int_error)
    with v have "parse_first_match line needle = Inl ValueError"
      by (simp add: pfm)
    with e show "e = ValueError \<and> parse_first_match line needle = Inl ValueError \<and>
        search_and_generate_oauth totp clip (pre @ line # post) needle = Inl ValueError"
      by (simp add: run)
  qed
  have c3: "\<forall>v n. parse_params q ''digits'' = Some v \<longrightarrow> py_int v = Inr n \<longrightarrow>
        parse_first_match line needle = Inr (Some \<lparr>label = lab, secret = sec, digits = n\<rparr>)"
    by (simp add: pfm)
  have c4: "\<forall>d e. parse_first_match line needle = Inr (Some d) \<longrightarrow>
        totp (secret d) (digits d) = Inl e \<longrightarrow>
        search_and_generate_oauth totp clip (pre @ line # post) needle = Inl e"
    by (simp add: run)
  have sec_d: "secret d = sec" if "parse_first_match line needle = Inr (Some d)" for d
    using that unfolding pfm by (auto split: sum.splits option.splits)
  have c5: "b32decode sec = None \<longrightarrow>
        (\<exists>e. search_and_generate_oauth (\<lambda>s k. totp_code s k t) clip (pre @ line # post) needle =
           Inl e) \<and>
        (\<forall>d. parse_first_match line needle = Inr (Some d) \<longrightarrow> 0 < digits d \<longrightarrow>
           digits d \<le> 10 \<longrightarrow>
           search_and_generate_oauth (\<lambda>s k. totp_code s k t) clip (pre @ line # post) needle =
             Inl InvalidSecret)"
  proof (intro impI conjI allI)
    assume b: "b32decode sec = None"
    show "\<exists>e. search_and_generate_oauth (\<lambda>s k. totp_code s k t) clip (pre @ line # post) needle =
        Inl e"
    proof (cases "parse_first_match line needle")
      case (Inl e)
      then show ?thesis by (simp add: run)
    next
      case (Inr dopt)
      then obtain d where d: "parse_first_match line needle = Inr (Some d)"
        unfolding pfm by (auto split: sum.splits)
      with b show ?thesis
        by (simp add: run sec_d [OF d] totp_code_bad_secret)
    qed
  next
    fix d
    assume b: "b32decode sec = None" and d: "parse_first_match line needle = Inr (Some d)"
      and "0 < digits d" "digits d \<le> 10"
    then show "search_and_generate_oauth (\<lambda>s k. totp_code s k t) clip (pre @ line # post) needle =
        Inl InvalidSecret"
      by (simp add: run sec_d [OF d] totp_code_bad_secret)
  qed
  have c6: "\<forall>v n. py_int v = Inr n \<longrightarrow>
        v \<noteq> [] \<and>
        (\<forall>c\<in>set v. c = CHR ''+'' \<or> c = CHR ''-'' \<or> c = CHR ''_'' \<or> digit_val c \<noteq> None)"
    using py_int_chars by blast
  from c1 c2 c3 c4 c5 c6 show ?thesis by (intro conjI)
qed

theorem candidate_line_witness:
  "search_and_generate_oauth (\<lambda>s n. Inr ''000000'') (\<lambda>c. True)
     [''# export'', ''otpauth://totp/x?secret=AB&digits=abc'', ''otpauth://totp/x?secret=CD'']
     ''x'' = Inl ValueError \<and>
   parse_first_match ''otpauth://totp/x?secret=A1'' ''x'' =
     Inr (Some \<lparr>label = ''x'', secret = ''A1'', digits = 6\<rparr>) \<and>
   search_and_generate_oauth (\<lambda>s k. totp_code s k 59) (\<lambda>c. True)
     [''# export'', ''otpauth://totp/x?secret=A1'', ''otpauth://totp/x?secret=CD''] ''x'' =
     Inl InvalidSecret"
proof -
  have h1: "\<forall>l\<in>set [''# export'']. \<not> passes_filters l ''x''"
    by code_simp
  have h3: "py_in (lower ''x'') (lower ''x'')"
    by code_simp
  have a2: "re_search ''otpauth://totp/x?secret=AB&digits=abc'' = Some (''x'', ''secret=AB&digits=abc'')"
    by code_simp
  have a4: "parse_params ''secret=AB&digits=abc'' ''secret'' = Some ''AB''"
    by code_simp
  have a6: "parse_params ''secret=AB&digits=abc'' ''digits'' = Some ''abc''"
    by code_simp
  have a7: "py_int ''abc'' = Inl ValueError"
    by code_simp
  have ne: "''AB'' \<noteq> []" "''A1'' \<noteq> []"
    by simp_all
  note t = candidate_line [OF h1 a2 h3 a4 ne(1), of "\<lambda>s n. Inr ''000000''" "\<lambda>c. True"
      "[''otpauth://totp/x?secret=CD'']" 59]
  from t a6 a7 have c1: "search_and_generate_oauth (\<lambda>s n. Inr ''000000'') (\<lambda>c. True)
     ([''# export''] @ ''otpauth://totp/x?secret=AB&digits=abc'' # [''otpauth://totp/x?secret=CD''])
     ''x'' = Inl ValueError"
    by blast
  have b2: "re_search ''otpauth://totp/x?secret=A1'' = Some (''x'', ''secret=A1'')"
    by code_simp
  have b4: "parse_params ''secret=A1'' ''secret'' = Some ''A1''"
    by code_simp
  have b6: "parse_params ''secret=A1'' ''digits'' = None"
    by code_simp
  have b7: "b32decode ''A1'' = None"
    by code_simp
  note u = candidate_line [OF h1 b2 h3 b4 ne(2), of "\<lambda>s n. Inr ''000000''" "\<lambda>c. True"
      "[''otpauth://totp/x?secret=CD'']" 59]
  from u b6 have c2: "parse_first_match ''otpauth://totp/x?secret=A1'' ''x'' =
     Inr (Some \<lparr>label = ''x'', secret = ''A1'', digits = 6\<rparr>)"
    by blast
  from u b7 c2 have c3: "search_and_generate_oauth (\<lambda>s k. totp_code s k 59) (\<lambda>c. True)
     ([''# export''] @ ''otpauth://totp/x?secret=A1'' # [''otpauth://totp/x?secret=CD'']) ''x'' =
     Inl InvalidSecret"
    by simp
  from c1 c2 c3 show ?thesis by simp
qed

text \<open>
  A line with the key \<open>secret\<close> and an empty value, whose \<open>digits\<close> value is \<open>abc\<close>, does not end
  the run: it is skipped and the descriptor of the next line is used.
\<close>

theorem empty_secret_digits_counterexample:
  "re_search ''otpauth://totp/x?secret=&digits=abc'' = Some (''x'', ''secret=&digits=abc'') \<and>
   py_in (lower ''x'') (lower ''x'') \<and>
   parse_params ''secret=&digits=abc'' ''secret'' = Some [] \<and>
   parse_params ''secret=&digits=abc'' ''digits'' = Some ''abc'' \<and>
   py_int ''abc'' = Inl ValueError \<and>
   search_and_generate_oauth (\<lambda>s n. Inr ''000000'') (\<lambda>c. True)
     [''otpauth://totp/x?secret=&digits=abc'', ''otpauth://totp/x?secret=CD''] ''x'' =
     Inr \<lparr>found = True, printed = [Box True], unread = [], generated = [(''CD'', 6)]\<rparr>"
  by code_simp

text \<open>
  C4. The marker matches in any case. On a line where the pattern is found,
  \<open>parse_first_match\<close> is a function of the label, the needle and the pieces of the
  query string in which letters matter only through \<open>lower\<close>: the line is kept exactly
  when the lower-cased needle is a contiguous piece of the lower-cased label, and the
  secret and the digits are the values of the last pieces whose keys, in lower case,
  are \<open>secret\<close> and \<open>digits\<close>. The label and the values are taken as written. So the
  case of the needle does not matter, and the line
  \<open>otpauth://TOTP/Work?SECRET=ABC&DIGITS=6\<close> matches the needle \<open>work\<close>, as does a line
  with the label \<open>WorkMail\<close> and \<open>DIGITS=8\<close>, whose digits are 8.
\<close>

theorem case_insensitive_matching:
  "(match_literal marker s = Some r \<longleftrightarrow> (\<exists>m. s = m @ r \<and> lower m = marker)) \<and>
   (py_in a b \<longleftrightarrow> sublist a b) \<and>
   (re_search line = Some (lab, q) \<longrightarrow>
      parse_first_match line needle =
        (let pairs = List.map_filter split_once (split_on CHR ''&'' q);
             find = (\<lambda>key. case filter (\<lambda>(k, v). lower k = key) pairs of
                                [] \<Rightarrow> None
                              | p # ps \<Rightarrow> Some (snd (last (p # ps))))
         in if \<not> sublist (lower needle) (lower lab) then Inr None
            else case find ''secret'' of
                   None \<Rightarrow> Inr None
                 | Some sec \<Rightarrow>
                     if sec = [] then Inr None
                     else (case (case find ''digits'' of None \<Rightarrow> Inr 6 | Some v \<Rightarrow> py_int v) of
                             Inl e \<Rightarrow> Inl e
                           | Inr n \<Rightarrow> Inr (Some \<lparr>label = lab, secret = sec, digits = n\<rparr>)))) \<and>
   (re_search line = None \<longrightarrow> parse_first_match line needle = Inr None) \<and>
   (re_search line = Some (lab, q) \<longrightarrow> \<not> sublist (lower needle) (lower lab) \<longrightarrow>
      parse_first_match line needle = Inr None) \<and>
   (lower needle = lower needle' \<longrightarrow>
      parse_first_match line needle = parse_first_match line needle') \<and>
   (split_once kv = Some (k, v) \<longrightarrow> add_param params kv = params(lower k \<mapsto> v)) \<and>
   (parse_first_match line needle = Inr (Some d) \<longrightarrow>
      (\<exists>query. re_search line = Some (label d, query) \<and>
         parse_params query ''secret'' = Some (secret d))) \<and>
   parse_first_match ''otpauth://TOTP/Work?SECRET=ABC&DIGITS=6'' ''work'' =
     Inr (Some \<lparr>label = ''Work'', secret = ''ABC'', digits = 6\<rparr>) \<and>
   parse_first_match ''otpauth://TOTP/WorkMail?SECRET=aBc&DIGITS=8'' ''work'' =
     Inr (Some \<lparr>label = ''WorkMail'', secret = ''aBc'', digits = 8\<rparr>)"
proof (intro conjI impI)
  show "match_literal marker s = Some r \<longleftrightarrow> (\<exists>m. s = m @ r \<and> lower m = marker)"
    by (rule match_literal_iff)
next
  show "py_in a b \<longleftrightarrow> sublist a b"
    by (rule py_in_sublist)
next
  assume l: "re_search line = Some (lab, q)"
  show "parse_first_match line needle =
        (let pairs = List.map_filter split_once (split_on CHR ''&'' q);
             find = (\<lambda>key. case filter (\<lambda>(k, v). lower k = key) pairs of
                                [] \<Rightarrow> None
                              | p # ps \<Rightarrow> Some (snd (last (p # ps))))
         in if \<not> sublist (lower needle) (lower lab) then Inr None
            else case find ''secret'' of
                   None \<Rightarrow> Inr None
                 | Some sec \<Rightarrow>
                     if sec = [] then Inr None
                     else (case (case find ''digits'' of None \<Rightarrow> Inr 6 | Some v \<Rightarrow> py_int v) of
                             Inl e \<Rightarrow> Inl e
                           | Inr n \<Rightarrow> Inr (Some \<lparr>label = lab, secret = sec, digits = n\<rparr>)))"
    unfolding Let_def parse_params_lookup [symmetric] py_in_sublist [symmetric]
    by (rule parse_first_match_parts [OF l])
next
  assume "re_search line = None"
  then show "parse_first_match line needle = Inr None"
    by (simp add: parse_first_match_def)
next
  assume "re_search line = Some (lab, q)" "\<not> sublist (lower needle) (lower lab)"
  then show "parse_first_match line needle = Inr None"
    by (simp add: parse_first_match_parts py_in_sublist)
next
  assume e: "lower needle = lower needle'"
  show "parse_first_match line needle = parse_first_match line needle'"
    by (simp only: parse_first_match_def e)
next
  assume "split_once kv = Some (k, v)"
  then show "add_param params kv = params(lower k \<mapsto> v)"
    by (rule add_param_Some)
next
  assume "parse_first_match line needle = Inr (Some d)"
  then show "\<exists>query. re_search line = Some (label d, query) \<and>
         parse_params query ''secret'' = Some (secret d)"
    by (auto simp: parse_first_match_def Let_def
        split: option.splits prod.splits if_splits sum.splits)
next
  show "parse_first_match ''otpauth://TOTP/Work?SECRET=ABC&DIGITS=6'' ''work'' =
     Inr (Some \<lparr>label = ''Work'', secret = ''ABC'', digits = 6\<rparr>)"
    by code_simp
next
  show "parse_first_match ''otpauth://TOTP/WorkMail?SECRET=aBc&DIGITS=8'' ''work'' =
     Inr (Some \<lparr>label = ''WorkMail'', secret = ''aBc'', digits = 8\<rparr>)"
    by code_simp
qed

theorem case_insensitive_matching_witness:
  "match_literal marker ''OtpAuth://Totp/rest'' = Some ''rest'' \<and>
   parse_first_match ''otpauth://totp/Work?secret=aBc'' ''WORK'' =
     parse_first_match ''otpauth://totp/Work?secret=aBc'' ''work'' \<and>
   parse_first_match ''otpauth://totp/Work?secret=aBc'' ''wok'' = Inr None \<and>
   add_param Map.empty ''SECRET=aBc'' = [''secret'' \<mapsto> ''aBc''] \<and>
   parse_first_match ''x OTPAUTH://totp/MyWorkMail?Secret=aBc&dIgItS=8&DIGITS=7 y'' ''WORK'' =
     Inr (Some \<lparr>label = ''MyWorkMail'', secret = ''aBc'', digits = 7\<rparr>) \<and>
   parse_first_match ''no marker here'' ''work'' = Inr None"
proof -
  note t = case_insensitive_matching [where s = "''OtpAuth://Totp/rest''" and r = "''rest''"
      and line = "''otpauth://totp/Work?secret=aBc''" and lab = "''Work''" and q = "''secret=aBc''"
      and needle = "''wok''" and kv = "''SECRET=aBc''" and k = "''SECRET''" and v = "''aBc''"
      and params = Map.empty]
  note u = case_insensitive_matching [where line = "''otpauth://totp/Work?secret=aBc''"
      and needle = "''WORK''" and needle' = "''work''"]
  note w = case_insensitive_matching [where
      line = "''x OTPAUTH://totp/MyWorkMail?Secret=aBc&dIgItS=8&DIGITS=7 y''"
      and lab = "''MyWorkMail''" and q = "''Secret=aBc&dIgItS=8&DIGITS=7''" and needle = "''WORK''"]
  note x = case_insensitive_matching [where line = "''no marker here''" and needle = "''work''"]
  have a1: "''OtpAuth://Totp/rest'' = ''OtpAuth://Totp/'' @ ''rest'' \<and>
      lower ''OtpAuth://Totp/'' = marker"
    by code_simp
  have a2: "re_search ''otpauth://totp/Work?secret=aBc'' = Some (''Work'', ''secret=aBc'')"
    by code_simp
  have a3: "\<not> py_in (lower ''wok'') (lower ''Work'')"
    by code_simp
  have a4: "split_once ''SECRET=aBc'' = Some (''SECRET'', ''aBc'')"
    by code_simp
  have a5: "lower ''SECRET'' = ''secret''" "lower ''WORK'' = lower ''work''"
    by code_simp+
  have a6: "re_search ''x OTPAUTH://totp/MyWorkMail?Secret=aBc&dIgItS=8&DIGITS=7 y'' =
      Some (''MyWorkMail'', ''Secret=aBc&dIgItS=8&DIGITS=7'')"
    by code_simp
  have a7: "(let pairs = List.map_filter split_once
                 (split_on CHR ''&'' ''Secret=aBc&dIgItS=8&DIGITS=7'');
             find = (\<lambda>key. case filter (\<lambda>(k, v). lower k = key) pairs of
                                [] \<Rightarrow> None
                              | p # ps \<Rightarrow> Some (snd (last (p # ps))))
         in if \<not> py_in (lower ''WORK'') (lower ''MyWorkMail'') then Inr None
            else case find ''secret'' of
                   None \<Rightarrow> Inr None
                 | Some sec \<Rightarrow>
                     if sec = [] then Inr None
                     else (case (case find ''digits'' of None \<Rightarrow> Inr 6 | Some v \<Rightarrow> py_int v) of
                             Inl e \<Rightarrow> Inl e
                           | Inr n \<Rightarrow>
                               Inr (Some \<lparr>label = ''MyWorkMail'', secret = sec, digits = n\<rparr>))) =
      Inr (Some \<lparr>label = ''MyWorkMail'', secret = ''aBc'', digits = 7\<rparr>)"
    by code_simp
  have a8: "re_search ''no marker here'' = None"
    by code_simp
  from t a1 have c1: "match_literal marker ''OtpAuth://Totp/rest'' = Some ''rest''"
    by blast
  from u a5 have c2: "parse_first_match ''otpauth://totp/Work?secret=aBc'' ''WORK'' =
     parse_first_match ''otpauth://totp/Work?secret=aBc'' ''work''"
    by blast
  from t a3 have "\<not> sublist (lower ''wok'') (lower ''Work'')"
    by (simp add: py_in_sublist)
  with t a2 have c3: "parse_first_match ''otpauth://totp/Work?secret=aBc'' ''wok'' = Inr None"
    by blast
  from t a4 a5 have c4: "add_param Map.empty ''SECRET=aBc'' = [''secret'' \<mapsto> ''aBc'']"
    by (simp only:)
  from w a6 have "parse_first_match ''x OTPAUTH://totp/MyWorkMail?Secret=aBc&dIgItS=8&DIGITS=7 y''
      ''WORK'' =
      (let pairs = List.map_filter split_once
                 (split_on CHR ''&'' ''Secret=aBc&dIgItS=8&DIGITS=7'');
             find = (\<lambda>key. case filter (\<lambda>(k, v). lower k = key) pairs of
                                [] \<Rightarrow> None
                              | p # ps \<Rightarrow> Some (snd (last (p # ps))))
         in if \<not> sublist (lower ''WORK'') (lower ''MyWorkMail'') then Inr None
            else case find ''secret'' of
                   None \<Rightarrow> Inr None
                 | Some sec \<Rightarrow>
                     if sec = [] then Inr None
                     else (case (case find ''digits'' of None \<Rightarrow> Inr 6 | Some v \<Rightarrow> py_int v) of
                             Inl e \<Rightarrow> Inl e
                           | Inr n \<Rightarrow>
                               Inr (Some \<lparr>label = ''MyWorkMail'', secret = sec, digits = n\<rparr>)))"
    by blast
  then have c5: "parse_first_match ''x OTPAUTH://totp/MyWorkMail?Secret=aBc&dIgItS=8&DIGITS=7 y''
      ''WORK'' = Inr (Some \<lparr>label = ''MyWorkMail'', secret = ''aBc'', digits = 7\<rparr>)"
    unfolding py_in_sublist [symmetric] a7 .
  from x a8 have c6: "parse_first_match ''no marker here'' ''work'' = Inr None"
    by blast
  from c1 c2 c3 c4 c5 c6 show ?thesis by (intro conjI)
qed

text \<open>
  C5. The query string is cut at every \<open>&\<close>; a piece is cut once, at its first \<open>=\<close>, so
  that the value keeps every later \<open>=\<close>; a piece without \<open>=\<close> adds nothing; the value
  found under a key is that of the last piece whose key, in lower case, is that key; and
  a piece whose key is neither \<open>secret\<close> nor \<open>digits\<close> can be taken out of the query
  string without changing what \<open>parse_first_match\<close> returns.
\<close>

theorem query_pairs:
  "(CHR ''&'' \<notin> set a \<longrightarrow>
      split_on CHR ''&'' (a @ CHR ''&'' # b) = a # split_on CHR ''&'' b \<and>
      split_on CHR ''&'' a = [a]) \<and>
   (CHR ''='' \<notin> set k \<longrightarrow> split_once (k @ CHR ''='' # v) = Some (k, v)) \<and>
   (split_once kv = None \<longleftrightarrow> CHR ''='' \<notin> set kv) \<and>
   parse_params query key =
     (case filter (\<lambda>(k, v). lower k = key)
             (List.map_filter split_once (split_on CHR ''&'' query)) of
        [] \<Rightarrow> None
      | p # ps \<Rightarrow> Some (snd (last (p # ps)))) \<and>
   (re_search line = Some (lab, q) \<longrightarrow> re_search line' = Some (lab, q') \<longrightarrow>
    split_on CHR ''&'' q' = xs @ other # ys \<longrightarrow> split_on CHR ''&'' q = xs @ ys \<longrightarrow>
    (\<forall>k v. split_once other = Some (k, v) \<longrightarrow> lower k \<noteq> ''secret'' \<and> lower k \<noteq> ''digits'') \<longrightarrow>
      parse_first_match line' needle = parse_first_match line needle)"
proof (intro conjI impI)
  assume "CHR ''&'' \<notin> set a"
  then show "split_on CHR ''&'' (a @ CHR ''&'' # b) = a # split_on CHR ''&'' b"
    and "split_on CHR ''&'' a = [a]"
    by (rule split_on_first, rule split_on_single)
next
  assume "CHR ''='' \<notin> set k"
  then show "split_once (k @ CHR ''='' # v) = Some (k, v)"
    by (rule split_once_first)
next
  show "split_once kv = None \<longleftrightarrow> CHR ''='' \<notin> set kv"
    by (rule split_once_none)
next
  show "parse_params query key =
     (case filter (\<lambda>(k, v). lower k = key)
             (List.map_filter split_once (split_on CHR ''&'' query)) of
        [] \<Rightarrow> None
      | p # ps \<Rightarrow> Some (snd (last (p # ps))))"
    unfolding parse_params_def foldl_add_param by simp
next
  assume l: "re_search line = Some (lab, q)" and l': "re_search line' = Some (lab, q')"
    and q': "split_on CHR ''&'' q' = xs @ other # ys"
    and q: "split_on CHR ''&'' q = xs @ ys"
    and o: "\<forall>k v. split_once other = Some (k, v) \<longrightarrow>
      lower k \<noteq> ''secret'' \<and> lower k \<noteq> ''digits''"
  have "parse_params q' ''secret'' = parse_params q ''secret''"
    unfolding parse_params_def q q' using o by (intro foldl_add_param_other) blast
  moreover have "parse_params q' ''digits'' = parse_params q ''digits''"
    unfolding parse_params_def q q' using o by (intro foldl_add_param_other) blast
  ultimately show "parse_first_match line' needle = parse_first_match line needle"
    by (simp only: parse_first_match_parts [OF l] parse_first_match_parts [OF l'])
qed

theorem query_pairs_witness:
  "split_on CHR ''&'' ''secret=A&x=1'' = [''secret=A'', ''x=1''] \<and>
   split_once ''secret=A=B'' = Some (''secret'', ''A=B'') \<and>
   split_once ''junk'' = None \<and>
   parse_params ''secret=A&x=1&SECRET=B'' ''secret'' = Some ''B'' \<and>
   parse_first_match ''otpauth://totp/m?secret=AB&issuer=Z&digits=8'' ''m'' =
     Inr (Some \<lparr>label = ''m'', secret = ''AB'', digits = 8\<rparr>)"
proof -
  note t = query_pairs [where a = "''secret=A''" and b = "''x=1''" and k = "''secret''"
      and v = "''A=B''" and kv = "''junk''" and query = "''secret=A&x=1&SECRET=B''"
      and key = "''secret''" and line = "''otpauth://totp/m?secret=AB&digits=8''"
      and line' = "''otpauth://totp/m?secret=AB&issuer=Z&digits=8''" and lab = "''m''"
      and q = "''secret=AB&digits=8''" and q' = "''secret=AB&issuer=Z&digits=8''"
      and xs = "[''secret=AB'']" and other = "''issuer=Z''" and ys = "[''digits=8'']"
      and needle = "''m''"]
  have a1: "CHR ''&'' \<notin> set ''secret=A''" "CHR ''&'' \<notin> set ''x=1''"
    "CHR ''='' \<notin> set ''secret''" "CHR ''='' \<notin> set ''junk''"
    by simp_all
  have a2: "split_on CHR ''&'' ''x=1'' = [''x=1'']"
    by code_simp
  have a3: "(case filter (\<lambda>(k, v). lower k = ''secret'')
             (List.map_filter split_once (split_on CHR ''&'' ''secret=A&x=1&SECRET=B'')) of
        [] \<Rightarrow> None
      | p # ps \<Rightarrow> Some (snd (last (p # ps)))) = Some ''B''"
    by code_simp
  have a4: "re_search ''otpauth://totp/m?secret=AB&digits=8'' = Some (''m'', ''secret=AB&digits=8'')"
    "re_search ''otpauth://totp/m?secret=AB&issuer=Z&digits=8'' =
       Some (''m'', ''secret=AB&issuer=Z&digits=8'')"
    by code_simp+
  have a5: "split_on CHR ''&'' ''secret=AB&issuer=Z&digits=8'' =
      [''secret=AB''] @ ''issuer=Z'' # [''digits=8'']"
    "split_on CHR ''&'' ''secret=AB&digits=8'' = [''secret=AB''] @ [''digits=8'']"
    by code_simp+
  have a6: "split_once ''issuer=Z'' = Some (''issuer'', ''Z'')"
    by code_simp
  have a7: "lower ''issuer'' \<noteq> ''secret'' \<and> lower ''issuer'' \<noteq> ''digits''"
    by code_simp
  have a8: "\<forall>k v. split_once ''issuer=Z'' = Some (k, v) \<longrightarrow>
      lower k \<noteq> ''secret'' \<and> lower k \<noteq> ''digits''"
    using a6 a7 by simp
  have a9: "parse_first_match ''otpauth://totp/m?secret=AB&digits=8'' ''m'' =
     Inr (Some \<lparr>label = ''m'', secret = ''AB'', digits = 8\<rparr>)"
    by code_simp
  from t a1 a2 have c1: "split_on CHR ''&'' ''secret=A&x=1'' = [''secret=A'', ''x=1'']"
    by simp
  from t a1 have c2: "split_once ''secret=A=B'' = Some (''secret'', ''A=B'')"
    by simp
  from t a1 have c3: "split_once ''junk'' = None"
    by blast
  from t a3 have c4: "parse_params ''secret=A&x=1&SECRET=B'' ''secret'' = Some ''B''"
    by (simp only:)
  from t a4 a5 a8 a9 have c5:
    "parse_first_match ''otpauth://totp/m?secret=AB&issuer=Z&digits=8'' ''m'' =
     Inr (Some \<lparr>label = ''m'', secret = ''AB'', digits = 8\<rparr>)"
    by (simp only:)
  from c1 c2 c3 c4 c5 show ?thesis by (intro conjI)
qed

text \<open>
  C6. A line on which the pattern is found and whose label holds the needle, but whose
  \<open>params\<close> have no \<open>secret\<close>, gives \<open>None\<close> without an error (whatever its \<open>digits\<close>
  value is), and the run goes on with the lines after it. When no line passes the
  filters, and so on the empty source too, the run returns \<open>False\<close>, calls no generator
  and raises nothing.
\<close>

theorem missing_secret_not_found:
  "(re_search line = Some (lab, query) \<longrightarrow> py_in (lower needle) (lower lab) \<longrightarrow>
      parse_params query ''secret'' = None \<longrightarrow>
        parse_first_match line needle = Inr None \<and>
        search_and_generate_oauth totp clip (line # rest) needle =
          search_and_generate_oauth totp clip rest needle) \<and>
   ((\<forall>l\<in>set ls. \<not> passes_filters l needle) \<longrightarrow>
      search_and_generate_oauth totp clip ls needle =
        Inr \<lparr>found = False, printed = [Box False], unread = [], generated = []\<rparr>) \<and>
   search_and_generate_oauth totp clip [] needle =
     Inr \<lparr>found = False, printed = [Box False], unread = [], generated = []\<rparr>"
proof (intro conjI impI)
  assume a: "re_search line = Some (lab, query)" "parse_params query ''secret'' = None"
  then show "parse_first_match line needle = Inr None"
    by (simp add: parse_first_match_def)
  then show "search_and_generate_oauth totp clip (line # rest) needle =
      search_and_generate_oauth totp clip rest needle"
    by simp
next
  assume "\<forall>l\<in>set ls. \<not> passes_filters l needle"
  then have "\<forall>l\<in>set ls. parse_first_match l needle = Inr None"
    by (simp add: not_passes_None)
  then show "search_and_generate_oauth totp clip ls needle =
      Inr \<lparr>found = False, printed = [Box False], unread = [], generated = []\<rparr>"
    by (rule search_not_found)
next
  show "search_and_generate_oauth totp clip [] needle =
     Inr \<lparr>found = False, printed = [Box False], unread = [], generated = []\<rparr>"
    by simp
qed

theorem missing_secret_not_found_witness:
  "parse_first_match ''otpauth://totp/mail?digits=abc'' ''mail'' = Inr None \<and>
   search_and_generate_oauth (\<lambda>s n. Inr s) (\<lambda>c. False)
     [''otpauth://totp/mail?digits=abc'', ''otpauth://totp/mail?secret=AB''] ''mail'' =
     Inr \<lparr>found = True, printed = [Box False, Line ''AB''], unread = [],
          generated = [(''AB'', 6)]\<rparr> \<and>
   search_and_generate_oauth (\<lambda>s n. Inr s) (\<lambda>c. False)
     [''# export'', ''otpauth://totp/mail?digits=6''] ''mail'' =
     Inr \<lparr>found = False, printed = [Box False], unread = [], generated = []\<rparr>"
proof -
  have h1: "re_search ''otpauth://totp/mail?digits=abc'' = Some (''mail'', ''digits=abc'')"
    by code_simp
  have h2: "py_in (lower ''mail'') (lower ''mail'')"
    by code_simp
  have h3: "parse_params ''digits=abc'' ''secret'' = None"
    by code_simp
  have h4: "\<forall>l\<in>set [''# export'', ''otpauth://totp/mail?digits=6'']. \<not> passes_filters l ''mail''"
    by code_simp
  have h5: "search_and_generate_oauth (\<lambda>s n. Inr s) (\<lambda>c. False)
      [''otpauth://totp/mail?secret=AB''] ''mail'' =
      Inr \<lparr>found = True, printed = [Box False, Line ''AB''], unread = [],
           generated = [(''AB'', 6)]\<rparr>"
    by code_simp
  show ?thesis
    using missing_secret_not_found [of "''otpauth://totp/mail?digits=abc''" "''mail''"
        "''digits=abc''" "''mail''" "\<lambda>s n. Inr s" "\<lambda>c. False"
        "[''otpauth://totp/mail?secret=AB'']" "[''# export'', ''otpauth://totp/mail?digits=6'']"]
      h1 h2 h3 h4 h5
    by simp
qed

text \<open>
  C7, as amended. Neither \<open>parse_first_match\<close> nor the loop looks at the range of the
  digits: on a line that passes the filters, whatever integer \<open>n\<close> the \<open>digits\<close> value
  converts to is the digits of the descriptor, and the generator is called with it. So
  descriptors with digits below 1 or above 10 do reach the generator; rejecting them is
  left to the generator, and with the generator of the specification the run then ends
  with \<open>InvalidDigits\<close>.
\<close>

theorem digits_unchecked:
  assumes "\<forall>l\<in>set pre. \<not> passes_filters l needle"
    and "re_search line = Some (lab, q)" and "py_in (lower needle) (lower lab)"
    and "parse_params q ''secret'' = Some sec" and "sec \<noteq> []"
    and "parse_params q ''digits'' = Some v" and "py_int v = Inr n"
  shows "parse_first_match line needle = Inr (Some \<lparr>label = lab, secret = sec, digits = n\<rparr>) \<and>
     search_and_generate_oauth totp clip (pre @ line # post) needle =
       (case totp sec n of
          Inl e \<Rightarrow> Inl e
        | Inr code \<Rightarrow>
            Inr \<lparr>found = True,
                 printed = Box (clip code) # (if clip code then [] else [Line code]),
                 unread = post,
                 generated = [(sec, n)]\<rparr>) \<and>
     (n \<le> 0 \<or> 10 < n \<longrightarrow>
        totp_code sec n t = Inl InvalidDigits \<and>
        search_and_generate_oauth (\<lambda>s k. totp_code s k t) clip (pre @ line # post) needle =
          Inl InvalidDigits)"
proof -
  have p: "parse_first_match line needle =
      Inr (Some \<lparr>label = lab, secret = sec, digits = n\<rparr>)"
    using assms(2-7) by (simp add: candidate_parse)
  have s: "search_and_generate_oauth totp' clip (pre @ line # post) needle =
       (case totp' sec n of
          Inl e \<Rightarrow> Inl e
        | Inr code \<Rightarrow>
            Inr \<lparr>found = True,
                 printed = Box (clip code) # (if clip code then [] else [Line code]),
                 unread = post,
                 generated = [(sec, n)]\<rparr>)" for totp'
    by (simp add: search_candidate [OF assms(1)] p split: sum.splits)
  have g: "totp_code sec n t = Inl InvalidDigits" if "n \<le> 0 \<or> 10 < n"
    using that by (simp add: totp_code_def)
  show ?thesis
    using p s [of totp] s [of "\<lambda>s k. totp_code s k t"] g by simp
qed

theorem digits_unchecked_witness:
  "parse_first_match ''otpauth://totp/x?secret=ABC&digits=-3'' ''x'' =
     Inr (Some \<lparr>label = ''x'', secret = ''ABC'', digits = - 3\<rparr>) \<and>
   search_and_generate_oauth (\<lambda>s n. Inr ''000'') (\<lambda>c. True)
     [''otpauth://totp/x?secret=ABC&digits=-3'', ''otpauth://totp/x?secret=CD''] ''x'' =
     Inr \<lparr>found = True, printed = [Box True], unread = [''otpauth://totp/x?secret=CD''],
          generated = [(''ABC'', - 3)]\<rparr> \<and>
   search_and_generate_oauth (\<lambda>s k. totp_code s k 59) (\<lambda>c. True)
     [''otpauth://totp/x?secret=ABC&digits=-3'', ''otpauth://totp/x?secret=CD''] ''x'' =
     Inl InvalidDigits"
proof -
  have h1: "\<forall>l\<in>set []. \<not> passes_filters l ''x''"
    by simp
  have h2: "re_search ''otpauth://totp/x?secret=ABC&digits=-3'' = Some (''x'', ''secret=ABC&digits=-3'')"
    by code_simp
  have h3: "py_in (lower ''x'') (lower ''x'')"
    by code_simp
  have h4: "parse_params ''secret=ABC&digits=-3'' ''secret'' = Some ''ABC''"
    by code_simp
  have h5: "''ABC'' \<noteq> []"
    by simp
  have h6: "parse_params ''secret=ABC&digits=-3'' ''digits'' = Some ''-3''"
    by code_simp
  have h7: "py_int ''-3'' = Inr (- 3)"
    by code_simp
  show ?thesis
    using digits_unchecked [OF h1 h2 h3 h4 h5 h6 h7, of "\<lambda>s n. Inr ''000''" "\<lambda>c. True"
        "[''otpauth://totp/x?secret=CD'']" 59]
    by simp
qed

text \<open>
  The lines with \<open>digits=0\<close> and \<open>digits=11\<close> yield descriptors with these digits, and the
  generator is called with the digits 0.
\<close>

theorem digits_invariant_counterexample:
  "parse_first_match ''otpauth://totp/x?secret=ABC&digits=0'' ''x'' =
     Inr (Some \<lparr>label = ''x'', secret = ''ABC'', digits = 0\<rparr>) \<and>
   parse_first_match ''otpauth://totp/x?secret=ABC&digits=11'' ''x'' =
     Inr (Some \<lparr>label = ''x'', secret = ''ABC'', digits = 11\<rparr>) \<and>
   search_and_generate_oauth (\<lambda>s n. Inr ''000'') (\<lambda>c. True)
     [''otpauth://totp/x?secret=ABC&digits=0''] ''x'' =
     Inr \<lparr>found = True, printed = [Box True], unread = [], generated = [(''ABC'', 0)]\<rparr>"
  by code_simp

text \<open>
  C8, as amended. The label may hold white space: the first group of the pattern is
  \<open>[^?]+\<close>. What \<open>re.search\<close> returns splits the line into a prefix, the marker in any
  case, a non-empty label without \<open>?\<close>, the \<open>?\<close>, a non-empty query string without white
  space, and a rest; every line that can be split so has a match; and the label of a
  descriptor is the first group of the match.
\<close>

theorem pattern_shape:
  "(re_search line = Some (lab, q) \<longrightarrow>
      (\<exists>pre m post. line = pre @ m @ lab @ CHR ''?'' # q @ post \<and> well_formed m lab q)) \<and>
   (well_formed m' lab' q' \<longrightarrow> re_search (pre' @ m' @ lab' @ CHR ''?'' # q' @ post') \<noteq> None) \<and>
   (parse_first_match line needle = Inr (Some d) \<longrightarrow>
      (\<exists>query. re_search line = Some (label d, query)))"
proof (intro conjI impI)
  assume "re_search line = Some (lab, q)"
  then show "\<exists>pre m post. line = pre @ m @ lab @ CHR ''?'' # q @ post \<and> well_formed m lab q"
    by (rule re_search_sound)
next
  assume "well_formed m' lab' q'"
  then have "match_at (m' @ lab' @ CHR ''?'' # q' @ post') \<noteq> None"
    using match_at_complete [of m' lab' q' post'] by auto
  then show "re_search (pre' @ m' @ lab' @ CHR ''?'' # q' @ post') \<noteq> None"
    by (rule re_search_complete)
next
  assume "parse_first_match line needle = Inr (Some d)"
  then show "\<exists>query. re_search line = Some (label d, query)"
    by (auto simp: parse_first_match_def Let_def
        split: option.splits prod.splits if_splits sum.splits)
qed

theorem pattern_shape_witness:
  "re_search (''2024 '' @ ''OtpAuth://TOTP/'' @ ''My Work'' @ CHR ''?'' # ''secret=ABC'' @ '' # old'') \<noteq> None \<and>
   (\<exists>query. re_search ''otpauth://totp/My Work?secret=ABC'' = Some (''My Work'', query))"
proof -
  have h1: "well_formed ''OtpAuth://TOTP/'' ''My Work'' ''secret=ABC''"
    by code_simp
  have h2: "parse_first_match ''otpauth://totp/My Work?secret=ABC'' ''work'' =
      Inr (Some \<lparr>label = ''My Work'', secret = ''ABC'', digits = 6\<rparr>)"
    by code_simp
  show ?thesis
    using pattern_shape [of "''otpauth://totp/My Work?secret=ABC''" "[]" "[]"
        "''OtpAuth://TOTP/''" "''My Work''" "''secret=ABC''" "''2024 ''" "'' # old''" "''work''"
        "\<lparr>label = ''My Work'', secret = ''ABC'', digits = 6\<rparr>"] h1 h2
    by simp
qed

text \<open>
  The line \<open>otpauth://totp/My Work?secret=ABC\<close> has a blank between the marker and the
  \<open>?\<close> and yields the descriptor with the label \<open>My Work\<close>.
\<close>

theorem label_with_space_counterexample:
  "is_space CHR '' '' \<and>
   re_search ''otpauth://totp/My Work?secret=ABC'' = Some (''My Work'', ''secret=ABC'') \<and>
   parse_first_match ''otpauth://totp/My Work?secret=ABC'' ''work'' =
     Inr (Some \<lparr>label = ''My Work'', secret = ''ABC'', digits = 6\<rparr>)"
  by code_simp

text \<open>
  C9. A line whose \<open>secret\<close> key has the empty value is treated as a line without a
  \<open>secret\<close> key: in both cases \<open>parse_first_match\<close> gives \<open>None\<close>, before the \<open>digits\<close>
  value is converted, and the run goes on with the lines after it.
\<close>

theorem empty_secret_skipped:
  assumes "re_search line = Some (lab, query)"
    and "parse_params query ''secret'' = Some [] \<or> parse_params query ''secret'' = None"
  shows "parse_first_match line needle = Inr None \<and>
     search_and_generate_oauth totp clip (line # rest) needle =
       search_and_generate_oauth totp clip rest needle"
proof -
  from assms have "parse_first_match line needle = Inr None"
    by (auto simp: parse_first_match_def)
  then show ?thesis by simp
qed

theorem empty_secret_skipped_witness:
  "parse_first_match ''otpauth://totp/mail?secret=&digits=6'' ''mail'' = Inr None \<and>
   search_and_generate_oauth (\<lambda>s n. Inr s) (\<lambda>c. True)
     [''otpauth://totp/mail?secret=&digits=6'', ''otpauth://totp/mail?secret=CD''] ''mail'' =
     Inr \<lparr>found = True, printed = [Box True], unread = [], generated = [(''CD'', 6)]\<rparr>"
proof -
  have h1: "re_search ''otpauth://totp/mail?secret=&digits=6'' = Some (''mail'', ''secret=&digits=6'')"
    by code_simp
  have h2: "parse_params ''secret=&digits=6'' ''secret'' = Some []"
    by code_simp
  have h3: "search_and_generate_oauth (\<lambda>s n. Inr s) (\<lambda>c. True)
      [''otpauth://totp/mail?secret=CD''] ''mail'' =
      Inr \<lparr>found = True, printed = [Box True], unread = [], generated = [(''CD'', 6)]\<rparr>"
    by code_simp
  show ?thesis
    using empty_secret_skipped [OF h1 disjI1 [OF h2], of "''mail''" "\<lambda>s n. Inr s" "\<lambda>c. True"
        "[''otpauth://totp/mail?secret=CD'']"] h3
    by simp
qed

text \<open>
  C10. When the run returns, the boolean is \<open>True\<close> exactly when some line yields a
  descriptor; then the generator was called once and its code was either copied, or,
  when the clipboard failed, printed after the box. Two runs that differ in the
  clipboard only return the same boolean, or raise the same error.
\<close>

theorem result_independent_of_clipboard:
  "(\<forall>r. search_and_generate_oauth totp clip ls needle = Inr r \<longrightarrow>
      found r = (\<exists>l\<in>set ls. \<exists>d. parse_first_match l needle = Inr (Some d)) \<and>
      (found r \<longrightarrow>
         (\<exists>s n code. generated r = [(s, n)] \<and> totp s n = Inr code \<and>
            printed r = (if clip code then [Box True] else [Box False, Line code])))) \<and>
   map_sum id found (search_and_generate_oauth totp clip ls needle) =
     map_sum id found (search_and_generate_oauth totp clip' ls needle)"
  using search_found_iff search_found_printed search_clip_indep by blast

theorem result_independent_of_clipboard_witness:
  "search_and_generate_oauth (\<lambda>s n. Inr ''123456'') (\<lambda>c. False)
     [''otpauth://totp/mail?secret=AB''] ''mail'' =
     Inr \<lparr>found = True, printed = [Box False, Line ''123456''], unread = [],
          generated = [(''AB'', 6)]\<rparr> \<and>
   map_sum id found (search_and_generate_oauth (\<lambda>s n. Inr ''123456'') (\<lambda>c. True)
     [''otpauth://totp/mail?secret=AB''] ''mail'') = Inr True"
proof -
  have h: "search_and_generate_oauth (\<lambda>s n. Inr ''123456'') (\<lambda>c. False)
     [''otpauth://totp/mail?secret=AB''] ''mail'' =
     Inr \<lparr>found = True, printed = [Box False, Line ''123456''], unread = [],
          generated = [(''AB'', 6)]\<rparr>"
    by code_simp
  show ?thesis
    using result_independent_of_clipboard [of "\<lambda>s n. Inr ''123456''" "\<lambda>c. False"
        "[''otpauth://totp/mail?secret=AB'']" "''mail''" "\<lambda>c. True"] h
    by simp
qed

end
